theory Spec2Isabelle
  imports Main "HOL-Library.AList" "HOL-Library.Multiset"
begin

section \<open>JavaScript values\<close>

text \<open>
  A JavaScript string is a sequence of UTF-16 code units; the time value of a valid
  \<^verbatim>\<open>Date\<close> is an integer number of milliseconds since the epoch.
\<close>

type_synonym jsstring = "nat list"
type_synonym instant = int

text \<open>The code units that \<^verbatim>\<open>\s\<close> matches and that \<^verbatim>\<open>trim()\<close> strips
  (ECMAScript WhiteSpace and LineTerminator).\<close>

definition isWhite :: "nat \<Rightarrow> bool" where
  "isWhite c \<longleftrightarrow>
     c \<in> set [9, 10, 11, 12, 13, 32, 160, 5760, 8232, 8233, 8239, 8287, 12288, 65279]
     \<or> (8192 \<le> c \<and> c \<le> 8202)"

definition trim :: "jsstring \<Rightarrow> jsstring" where
  "trim s = rev (dropWhile isWhite (rev (dropWhile isWhite s)))"

text \<open>\<^verbatim>\<open>s.split(/\s+/)\<close>: the pieces between maximal runs of whitespace. The empty
  string gives one empty piece; leading or trailing whitespace gives an empty first or
  last piece.\<close>

fun splitWs :: "jsstring \<Rightarrow> jsstring list" where
  "splitWs [] = [[]]"
| "splitWs (c # cs) =
     (if isWhite c then
        (if cs \<noteq> [] \<and> isWhite (hd cs) then splitWs cs else [] # splitWs cs)
      else (case splitWs cs of [] \<Rightarrow> [[c]] | w # ws \<Rightarrow> (c # w) # ws))"

text \<open>\<^verbatim>\<open>parts.join(sep)\<close>.\<close>

fun joinWith :: "jsstring \<Rightarrow> jsstring list \<Rightarrow> jsstring" where
  "joinWith sep [] = []"
| "joinWith sep [x] = x"
| "joinWith sep (x # y # ys) = x @ sep @ joinWith sep (y # ys)"

subsection \<open>Decimal digits\<close>

text \<open>\<open>pad k n\<close> writes the last \<open>k\<close> decimal digits of \<open>n\<close>, zero-filled.\<close>

fun pad :: "nat \<Rightarrow> nat \<Rightarrow> jsstring" where
  "pad 0 n = []"
| "pad (Suc k) n = pad k (n div 10) @ [48 + n mod 10]"

definition digitVal :: "nat \<Rightarrow> nat option" where
  "digitVal c = (if 48 \<le> c \<and> c \<le> 57 then Some (c - 48) else None)"

definition parseDigits :: "jsstring \<Rightarrow> nat option" where
  "parseDigits ds =
     fold (\<lambda>c acc. case acc of None \<Rightarrow> None
                    | Some a \<Rightarrow> (case digitVal c of None \<Rightarrow> None | Some d \<Rightarrow> Some (10 * a + d)))
          ds (Some 0)"

section \<open>The calendar of ECMAScript dates\<close>

definition msPerDay :: int where
  "msPerDay = 86400000"

definition maxTime :: int where
  "maxTime = 8640000000000000"

text \<open>\<open>dayFromYear\<close> and \<open>isLeap\<close> are ECMAScript's DayFromYear and the leap-year rule of
  DaysInYear.\<close>

definition dayFromYear :: "int \<Rightarrow> int" where
  "dayFromYear y = 365 * (y - 1970) + (y - 1969) div 4 - (y - 1901) div 100 + (y - 1601) div 400"

definition isLeap :: "int \<Rightarrow> bool" where
  "isLeap y \<longleftrightarrow> y mod 4 = 0 \<and> (y mod 100 \<noteq> 0 \<or> y mod 400 = 0)"

text \<open>The year a day number falls in, and the day within that year, computed through
  the 400-year, 100-year and 4-year cycles counted from 1 January 1601.\<close>

definition yearAndDay :: "int \<Rightarrow> int \<times> int" where
  "yearAndDay d =
     (let n = d + 134774;
          era = n div 146097;
          doe = n mod 146097;
          c = min 3 (doe div 36524);
          doc = doe - 36524 * c;
          q = doc div 1461;
          doq = doc mod 1461;
          r = min 3 (doq div 365)
      in (1601 + 400 * era + 100 * c + 4 * q + r, doq - 365 * r))"

text \<open>The day within the year on which month \<open>m\<close> (0 = January) starts.\<close>

definition monthStart :: "bool \<Rightarrow> int \<Rightarrow> int" where
  "monthStart leap m =
     (let i = m mod 12;
          base = [0, 31, 59, 90, 120, 151, 181, 212, 243, 273, 304, 334] ! nat i
      in if leap \<and> 2 \<le> i then base + 1 else base)"

text \<open>ECMAScript's MonthFromTime, on the day within the year.\<close>

definition monthFromDay :: "bool \<Rightarrow> int \<Rightarrow> int" where
  "monthFromDay leap dwy =
     (let inLeapYear = (if leap then 1 else 0)
      in if dwy < 31 then 0
         else if dwy < 59 + inLeapYear then 1
         else if dwy < 90 + inLeapYear then 2
         else if dwy < 120 + inLeapYear then 3
         else if dwy < 151 + inLeapYear then 4
         else if dwy < 181 + inLeapYear then 5
         else if dwy < 212 + inLeapYear then 6
         else if dwy < 243 + inLeapYear then 7
         else if dwy < 273 + inLeapYear then 8
         else if dwy < 304 + inLeapYear then 9
         else if dwy < 334 + inLeapYear then 10
         else 11)"

text \<open>Year, month (0-based) and day of the month of a time value.\<close>

definition dateFields :: "int \<Rightarrow> int \<times> int \<times> int" where
  "dateFields tv =
     (let (y, dwy) = yearAndDay (tv div msPerDay);
          m = monthFromDay (isLeap y) dwy
      in (y, m, dwy - monthStart (isLeap y) m + 1))"

definition hourOf :: "int \<Rightarrow> int" where
  "hourOf tv = (tv mod msPerDay) div 3600000"

definition minuteOf :: "int \<Rightarrow> int" where
  "minuteOf tv = (tv mod 3600000) div 60000"

definition secondOf :: "int \<Rightarrow> int" where
  "secondOf tv = (tv mod 60000) div 1000"

definition msOf :: "int \<Rightarrow> int" where
  "msOf tv = tv mod 1000"

text \<open>ECMAScript's MakeDay, MakeTime and MakeDate on integer arguments.\<close>

definition makeDay :: "int \<Rightarrow> int \<Rightarrow> int \<Rightarrow> int" where
  "makeDay year month date =
     (let ym = year + month div 12
      in dayFromYear ym + monthStart (isLeap ym) month + date - 1)"

definition makeTime :: "int \<Rightarrow> int \<Rightarrow> int \<Rightarrow> int \<Rightarrow> int" where
  "makeTime h m s ms = h * 3600000 + m * 60000 + s * 1000 + ms"

definition makeDate :: "int \<Rightarrow> int \<Rightarrow> int" where
  "makeDate day time = day * msPerDay + time"

section \<open>The runtime the bot runs on\<close>

text \<open>
  What the code takes from its runtime and not from the repository: the rules of the
  zone \<^verbatim>\<open>Asia/Jerusalem\<close> (\<open>zoneLocal\<close>: the local time value of an instant there), the
  zone of the Node process (\<open>procLocal\<close>, and \<open>procUTC\<close>: the instant of a local time
  value), and \<^verbatim>\<open>String.prototype.toLowerCase\<close>.
\<close>

record runtime =
  zoneLocal :: "instant \<Rightarrow> int"
  procLocal :: "instant \<Rightarrow> int"
  procUTC :: "int \<Rightarrow> instant"
  lowerCase :: "jsstring \<Rightarrow> jsstring"

text \<open>A runtime whose two zones have fixed offsets (in milliseconds); the lower-casing
  is that of the letters A to Z.\<close>

definition asciiLower :: "jsstring \<Rightarrow> jsstring" where
  "asciiLower s = map (\<lambda>c. if 65 \<le> c \<and> c \<le> 90 then c + 32 else c) s"

definition fixedRuntime :: "int \<Rightarrow> int \<Rightarrow> runtime" where
  "fixedRuntime zoneOff procOff =
     \<lparr> zoneLocal = (\<lambda>t. t + zoneOff), procLocal = (\<lambda>t. t + procOff),
       procUTC = (\<lambda>tv. tv - procOff), lowerCase = asciiLower \<rparr>"

text \<open>\<^verbatim>\<open>new Date(year, month, day, h, mn, 0, 0)\<close>: a local time of the process's zone;
  a year from 0 to 99 means 1900 + year.\<close>

definition newLocalDate :: "runtime \<Rightarrow> int \<Rightarrow> int \<Rightarrow> int \<Rightarrow> int \<Rightarrow> int \<Rightarrow> instant" where
  "newLocalDate rt year month day h mn =
     (let yr = (if 0 \<le> year \<and> year \<le> 99 then 1900 + year else year)
      in procUTC rt (makeDate (makeDay yr month day) (makeTime h mn 0 0)))"

text \<open>
  \<^verbatim>\<open>now.toLocaleDateString('en-US', { timeZone: 'Asia/Jerusalem' }).split('/')\<close> read
  through \<^verbatim>\<open>Number\<close>: the numbers of the M/D/YYYY date of the instant in that zone.
\<close>

definition localeDateParts :: "runtime \<Rightarrow> instant \<Rightarrow> int \<times> int \<times> int" where
  "localeDateParts rt now =
     (let (y, m, d) = dateFields (zoneLocal rt now) in (m + 1, d, y))"

text \<open>\<^verbatim>\<open>getIsraelMidnight()\<close> of part_000 and backup/bot.js, with the clock reading
  \<^verbatim>\<open>new Date()\<close> as an argument.\<close>

definition getIsraelMidnight :: "runtime \<Rightarrow> instant \<Rightarrow> instant" where
  "getIsraelMidnight rt now =
     (let (month, day, year) = localeDateParts rt now
      in newLocalDate rt year (month - 1) day 0 0)"

text \<open>
  \<^verbatim>\<open>toLocaleTimeString(locale, { hour: '2-digit', minute: '2-digit', hour12: false,
  timeZone: 'Asia/Jerusalem' })\<close>: the 24-hour clock of the instant in that zone, with
  the hours from 00 to 23, for the locale \<^verbatim>\<open>en-US\<close> of part_000 and backup/bot.js
  and for the locale \<^verbatim>\<open>he-IL\<close> of src/bot.js.
\<close>

definition clockHHMM :: "runtime \<Rightarrow> instant \<Rightarrow> jsstring" where
  "clockHHMM rt t =
     (let tv = zoneLocal rt t
      in pad 2 (nat (hourOf tv)) @ [58] @ pad 2 (nat (minuteOf tv)))"

section \<open>Dates in history.json\<close>

text \<open>
  \<^verbatim>\<open>date.toISOString()\<close>: the UTC fields of the time value, with a four-digit year
  or a signed six-digit one. A \<^verbatim>\<open>Date\<close> holds no time value beyond \<open>maxTime\<close>; for
  an invalid \<^verbatim>\<open>Date\<close> the call throws a RangeError, which is \<open>None\<close> here.
\<close>

definition toISOString :: "instant \<Rightarrow> jsstring option" where
  "toISOString t =
     (if t < - maxTime \<or> maxTime < t then None
      else
        (let (y, m, d) = dateFields t;
             ys = (if 0 \<le> y \<and> y \<le> 9999 then pad 4 (nat y)
                   else (if y < 0 then [45] else [43]) @ pad 6 (nat \<bar>y\<bar>))
         in Some (ys @ [45] @ pad 2 (nat (m + 1)) @ [45] @ pad 2 (nat d) @ [84]
                  @ pad 2 (nat (hourOf t)) @ [58] @ pad 2 (nat (minuteOf t)) @ [58]
                  @ pad 2 (nat (secondOf t)) @ [46] @ pad 3 (nat (msOf t)) @ [90])))"

text \<open>
  \<^verbatim>\<open>new Date(ts)\<close> on a string of the format that \<^verbatim>\<open>toISOString\<close> writes
  (\<^verbatim>\<open>YYYY-MM-DDTHH:mm:ss.sssZ\<close>, or with a signed six-digit year); \<open>None\<close> is the
  invalid \<^verbatim>\<open>Date\<close>. The other formats that the runtime's parser accepts are outside
  this model: no string of history.json written by \<^verbatim>\<open>persist\<close> has them.
\<close>

definition parseDate :: "jsstring \<Rightarrow> instant option" where
  "parseDate s =
     (let signed = (s \<noteq> [] \<and> (hd s = 43 \<or> hd s = 45));
          neg = (s \<noteq> [] \<and> hd s = 45);
          yd = (if signed then take 6 (tl s) else take 4 s);
          rest = (if signed then drop 7 s else drop 4 s)
      in if length yd \<noteq> (if signed then 6 else 4) \<or> length rest \<noteq> 20
            \<or> rest ! 0 \<noteq> 45 \<or> rest ! 3 \<noteq> 45 \<or> rest ! 6 \<noteq> 84 \<or> rest ! 9 \<noteq> 58
            \<or> rest ! 12 \<noteq> 58 \<or> rest ! 15 \<noteq> 46 \<or> rest ! 19 \<noteq> 90
         then None
         else
           Option.bind (parseDigits yd) (\<lambda>y.
           Option.bind (parseDigits (take 2 (drop 1 rest))) (\<lambda>mo.
           Option.bind (parseDigits (take 2 (drop 4 rest))) (\<lambda>d.
           Option.bind (parseDigits (take 2 (drop 7 rest))) (\<lambda>h.
           Option.bind (parseDigits (take 2 (drop 10 rest))) (\<lambda>mi.
           Option.bind (parseDigits (take 2 (drop 13 rest))) (\<lambda>sec.
           Option.bind (parseDigits (take 3 (drop 16 rest))) (\<lambda>ms.
             if (neg \<and> y = 0) \<or> mo < 1 \<or> 12 < mo \<or> d < 1 \<or> 31 < d \<or> 24 < h
                \<or> (h = 24 \<and> (mi \<noteq> 0 \<or> sec \<noteq> 0 \<or> ms \<noteq> 0)) \<or> 59 < mi \<or> 59 < sec
             then None
             else
               (let tv = makeDate (makeDay (if neg then - int y else int y) (int mo - 1) (int d))
                                  (makeTime (int h) (int mi) (int sec) (int ms))
                in if tv < - maxTime \<or> maxTime < tv then None else Some tv)))))))))"

text \<open>The string written for an instant (empty where \<^verbatim>\<open>toISOString\<close> throws).\<close>

definition isoOf :: "instant \<Rightarrow> jsstring" where
  "isoOf t = (case toISOString t of None \<Rightarrow> [] | Some s \<Rightarrow> s)"

section \<open>The history table and its file\<close>

text \<open>
  The \<^verbatim>\<open>Map\<close> from lower-cased text to the array of its \<^verbatim>\<open>Date\<close>s, as the list of
  its entries in insertion order: \<^verbatim>\<open>history.get(k)\<close> is \<open>map_of h k\<close>,
  \<^verbatim>\<open>history.set(k, v)\<close> is \<open>AList.update k v h\<close> (an existing key keeps its place, a
  new one goes last) and \<^verbatim>\<open>history.delete(k)\<close> is \<open>AList.delete k h\<close>. The keys of a
  \<^verbatim>\<open>Map\<close> are distinct.
\<close>

type_synonym table = "(jsstring \<times> instant list) list"

text \<open>The object parsed from history.json: each key with its array of strings.\<close>

type_synonym json = "(jsstring \<times> jsstring list) list"

text \<open>
  An object lists its array-index keys (canonical decimal strings below \<open>2^32 - 1\<close>)
  first, in ascending order, and its other keys after them in creation order.
\<close>

definition arrayIndex :: "jsstring \<Rightarrow> nat option" where
  "arrayIndex k =
     (case parseDigits k of
        None \<Rightarrow> None
      | Some n \<Rightarrow> if k \<noteq> [] \<and> (k = [48] \<or> hd k \<noteq> 48) \<and> n < 4294967295 then Some n else None)"

definition indexKey :: "jsstring \<times> 'v \<Rightarrow> nat" where
  "indexKey e = (case arrayIndex (fst e) of None \<Rightarrow> 0 | Some n \<Rightarrow> n)"

definition objectOrder :: "(jsstring \<times> 'v) list \<Rightarrow> (jsstring \<times> 'v) list" where
  "objectOrder es =
     sort_key indexKey (filter (\<lambda>e. arrayIndex (fst e) \<noteq> None) es)
     @ filter (\<lambda>e. arrayIndex (fst e) = None) es"

text \<open>\<^verbatim>\<open>Object.fromEntries(entries)\<close>: one property per entry, a later entry of the same
  key replacing the value.\<close>

definition fromEntries :: "(jsstring \<times> 'v) list \<Rightarrow> (jsstring \<times> 'v) list" where
  "fromEntries es = objectOrder (fold (\<lambda>e ob. AList.update (fst e) (snd e) ob) es [])"

text \<open>
  \<^verbatim>\<open>persist()\<close>: the new content of history.json, given the old one. An exception
  (here: \<^verbatim>\<open>toISOString\<close> on an invalid date) is caught and logged, and the file stays
  as it was. \<open>None\<close> is a file that is absent or does not parse.
\<close>

definition persist :: "table \<Rightarrow> json option \<Rightarrow> json option" where
  "persist h old =
     (case those (map (\<lambda>e. map_option (Pair (fst e)) (those (map toISOString (snd e)))) h) of
        None \<Rightarrow> old
      | Some es \<Rightarrow> Some (fromEntries es))"

text \<open>
  The load at startup: \<^verbatim>\<open>history.set(k, arr.map(ts => new Date(ts)))\<close> for every
  entry of the parsed file; an absent or unparseable file leaves the table empty. The
  loaded dates may be invalid (\<open>None\<close>).
\<close>

definition load :: "json option \<Rightarrow> (jsstring \<times> instant option list) list" where
  "load content =
     (case content of
        None \<Rightarrow> []
      | Some ob \<Rightarrow> fold (\<lambda>e h. AList.update (fst e) (map parseDate (snd e)) h) ob [])"

section \<open>Eviction\<close>

text \<open>
  The loop of \<^verbatim>\<open>prune\<close> and \<^verbatim>\<open>midnightPrune\<close>:
  \<^verbatim>\<open>for (const [k, arr] of history) { const left = arr.filter(t => t.getTime() >= cutoff);
  if (left.length) history.set(k, left); else history.delete(k); }\<close>.
  The loop body changes or deletes the entry it is visiting only, so the live iteration
  visits the entries the table had when the loop began.
\<close>

definition pruneEntry :: "int \<Rightarrow> jsstring \<times> instant list \<Rightarrow> table \<Rightarrow> table" where
  "pruneEntry cutoff e h =
     (let left = filter (\<lambda>t. cutoff \<le> t) (snd e)
      in if left \<noteq> [] then AList.update (fst e) left h else AList.delete (fst e) h)"

definition evict :: "int \<Rightarrow> table \<Rightarrow> table" where
  "evict cutoff h = fold (pruneEntry cutoff) h h"

text \<open>
  Eviction as the specification words it: for every key, remove all instants strictly
  before the boundary, and delete the keys left with no instant.
\<close>

definition evictSpec :: "int \<Rightarrow> table \<Rightarrow> table" where
  "evictSpec boundary h =
     filter (\<lambda>e. snd e \<noteq> [])
       (map (\<lambda>e. (fst e, filter (\<lambda>t. \<not> t < boundary) (snd e))) h)"

text \<open>\<^verbatim>\<open>history.get(key) || []\<close>: an array is truthy, also an empty one.\<close>

definition lookup :: "table \<Rightarrow> jsstring \<Rightarrow> instant list" where
  "lookup h key = (case map_of h key of None \<Rightarrow> [] | Some arr \<Rightarrow> arr)"


section \<open>State and observations\<close>

text \<open>
  The module-level state of every variant: the \<^verbatim>\<open>history\<close> map, the
  \<^verbatim>\<open>processedIds\<close> set (its elements in insertion order) and the content of
  history.json. part_000 and backup/bot.js add \<^verbatim>\<open>lastPruneMidnight\<close>, src/bot.js adds
  \<^verbatim>\<open>lastSeenId\<close>.
\<close>

record store =
  history :: table
  processedIds :: "jsstring list"
  stored :: "json option"

record midnightState = store +
  lastPruneMidnight :: int

record rollingState = store +
  lastSeenId :: "jsstring option"

text \<open>
  A message row of the page: its \<^verbatim>\<open>data-id\<close> attribute, the \<^verbatim>\<open>innerText\<close> of the
  text node the callback finds in it (\<open>None\<close>: no such node) and its
  \<^verbatim>\<open>data-pre-plain-text\<close> attribute.
\<close>

record row =
  dataId :: "jsstring option"
  innerText :: "jsstring option"
  prePlain :: "jsstring option"

text \<open>
  What one run of the \<^verbatim>\<open>setInterval\<close> callback observes: the rows
  \<^verbatim>\<open>div[data-id]\<close>, whether the chat input is there to take a reply, and the clock
  readings the run makes, in the order of the source. In part_000 \<open>read1\<close> is the
  reading of the rollover check, \<open>read2\<close> that of \<^verbatim>\<open>midnightPrune\<close> and \<open>read3\<close> is
  \<^verbatim>\<open>currentTimestamp\<close>; in src/bot.js \<open>read1\<close> is the first \<^verbatim>\<open>msgDate\<close>, \<open>read2\<close>
  is \<^verbatim>\<open>now\<close> and \<open>read3\<close> is the \<^verbatim>\<open>Date.now()\<close> of \<^verbatim>\<open>prune\<close>.
\<close>

record poll =
  rows :: "row list"
  inputReady :: bool
  read1 :: instant
  read2 :: instant
  read3 :: instant

section \<open>part_000: the day since midnight\<close>

text \<open>\<^verbatim>\<open>midnightPrune()\<close>, with its clock reading as an argument.\<close>

definition midnightPrune :: "runtime \<Rightarrow> instant \<Rightarrow> midnightState \<Rightarrow> midnightState" where
  "midnightPrune rt now st =
     (let cutoffTimestamp = getIsraelMidnight rt now;
          h = evict cutoffTimestamp (history st)
      in st\<lparr> history := h, stored := persist h (stored st), processedIds := [],
             lastPruneMidnight := cutoffTimestamp \<rparr>)"

definition replyHead :: jsstring where
  "replyHead = [9888, 65039, 32, 1492, 1492, 1493, 1491, 1506, 1492, 32, 34]"

definition replyMid :: jsstring where
  "replyMid = [34, 32, 1492, 1493, 1508, 1497, 1506, 1492, 32, 1492, 1497, 1493, 1501, 32,
               1490, 1501, 32, 1489, 1513, 1506, 1493, 1514, 58, 32]"

text \<open>\<^verbatim>\<open>buildReply(msg, times)\<close> of part_000. The comparator \<^verbatim>\<open>(a, b) => a - b\<close>
  sorts the numbers in ascending order.\<close>

definition buildReply :: "runtime \<Rightarrow> jsstring \<Rightarrow> instant list \<Rightarrow> jsstring" where
  "buildReply rt msg stamps =
     (let formattedTimes = joinWith [44, 32] (map (clockHHMM rt) (sort stamps))
      in replyHead @ msg @ replyMid @ formattedTimes)"

text \<open>
  The callback of \<^verbatim>\<open>setInterval\<close> in part_000 begins with the daily check:
  \<^verbatim>\<open>const nowMid = getIsraelMidnight(); if (nowMid > lastPruneMidnight) midnightPrune();\<close>
\<close>

definition rollover :: "runtime \<Rightarrow> poll \<Rightarrow> midnightState \<Rightarrow> midnightState" where
  "rollover rt p st =
     (let nowMid = getIsraelMidnight rt (read1 p)
      in if nowMid > lastPruneMidnight st then midnightPrune rt (read2 p) st else st)"

text \<open>The words of a message as part_000 counts them:
  \<^verbatim>\<open>messageText.split(/\s+/).filter(word => word.length > 0)\<close>.\<close>

definition wordsOf :: "jsstring \<Rightarrow> jsstring list" where
  "wordsOf messageText = filter (\<lambda>word. length word > 0) (splitWs messageText)"

text \<open>
  The whole callback: the new state and the reply typed into the chat, if any. The
  reply is built whenever the key has earlier occurrences and typed when the chat input
  is visible. Errors thrown by the page (the \<^verbatim>\<open>catch\<close> branch) are outside the
  model.
\<close>

definition pollTick :: "runtime \<Rightarrow> poll \<Rightarrow> midnightState \<Rightarrow> midnightState \<times> jsstring option" where
  "pollTick rt p st0 =
     (let st = rollover rt p st0
      in if rows p = [] then (st, None)
         else
           (let lastMessageElement = last (rows p)
            in case dataId lastMessageElement of
                 None \<Rightarrow> (st, None)
               | Some messageId \<Rightarrow>
                   if messageId = [] then (st, None)
                   else if messageId \<in> set (processedIds st) then (st, None)
                   else
                     (let st1 = st\<lparr> processedIds := processedIds st @ [messageId] \<rparr>
                      in case innerText lastMessageElement of
                           None \<Rightarrow> (st1, None)
                         | Some raw \<Rightarrow>
                             (let messageText = trim raw;
                                  words = wordsOf messageText
                              in if length words = 0 \<or> length words > 3 \<or> length messageText = 0
                                 then (st1, None)
                                 else
                                   (let historyKey = lowerCase rt messageText;
                                        previousTimestamps = lookup (history st1) historyKey;
                                        currentTimestamp = read3 p;
                                        reply =
                                          (if length previousTimestamps > 0 \<and> inputReady p
                                           then Some (buildReply rt messageText previousTimestamps)
                                           else None);
                                        h = AList.update historyKey
                                              (previousTimestamps @ [currentTimestamp]) (history st1)
                                    in (st1\<lparr> history := h, stored := persist h (stored st1) \<rparr>,
                                        reply))))))"

text \<open>
  A qualifying message, in the words of the specification: text whose word count,
  after normalization, is between 1 and 3 inclusive.
\<close>

definition wordCount :: "jsstring \<Rightarrow> nat" where
  "wordCount raw = length (filter (\<lambda>w. w \<noteq> []) (splitWs (trim raw)))"

definition qualifying :: "jsstring \<Rightarrow> bool" where
  "qualifying raw \<longleftrightarrow> 1 \<le> wordCount raw \<and> wordCount raw \<le> 3"

section \<open>backup/bot.js\<close>

definition backupHead :: jsstring where
  "backupHead = [9888, 65039, 32, 1492, 1492, 1493, 1491, 1506, 1492, 32, 34]"

definition backupMid :: jsstring where
  "backupMid = [34, 32, 1492, 1493, 1508, 1497, 1506, 1492, 32, 1489, 1497, 1502, 1502, 1492,
                32, 1492, 1488, 1495, 1512, 1493, 1504, 1492, 32, 1489, 1513, 1506, 1493, 1514,
                32, 40]"

text \<open>\<^verbatim>\<open>buildReply(msg, times)\<close> of backup/bot.js.\<close>

definition buildReply_backup :: "runtime \<Rightarrow> jsstring \<Rightarrow> instant list \<Rightarrow> jsstring" where
  "buildReply_backup rt msg stamps =
     (let formatted = joinWith [44, 32] (map (clockHHMM rt) (sort stamps))
      in backupHead @ msg @ backupMid @ formatted @ [41])"

section \<open>src/bot.js: the last 24 hours\<close>

definition DAY_MS :: int where
  "DAY_MS = 24 * 60 * 60 * 1000"

definition MAX_IDS :: int where
  "MAX_IDS = 2000"

definition botHead :: jsstring where
  "botHead = [1492, 1492, 1493, 1491, 1506, 1492, 32, 60]"

definition botMid :: jsstring where
  "botMid = [62, 32, 1492, 1493, 1508, 1497, 1506, 1492, 32, 1489, 1497, 1502, 1502, 1492, 32,
             1492, 1488, 1495, 1512, 1493, 1504, 1492, 32, 1489, 1513, 1506, 1493, 1514, 32]"

text \<open>\<^verbatim>\<open>buildReply(msg, times)\<close> of src/bot.js. The comparator \<^verbatim>\<open>(a, b) => b - a\<close>
  sorts the dates in descending order.\<close>

definition buildReply_bot :: "runtime \<Rightarrow> jsstring \<Rightarrow> instant list \<Rightarrow> jsstring" where
  "buildReply_bot rt msg stamps =
     (let formatted = joinWith [32, 1493, 1489] (map (clockHHMM rt) (rev (sort stamps)))
      in botHead @ msg @ botMid @ formatted @ [32, 40, 73, 76, 84, 41])"

text \<open>
  \<^verbatim>\<open>prune()\<close> of src/bot.js, with its \<^verbatim>\<open>Date.now()\<close> as an argument. The constant
  \<^verbatim>\<open>excess\<close> is never decreased, so the \<^verbatim>\<open>forEach\<close> deletes every identifier once
  the set is larger than \<^verbatim>\<open>MAX_IDS\<close>.
\<close>

definition prune :: "instant \<Rightarrow> rollingState \<Rightarrow> rollingState" where
  "prune now st =
     (let cutoff = now - DAY_MS;
          h = evict cutoff (history st);
          st1 = st\<lparr> history := h, stored := persist h (stored st) \<rparr>
      in if int (length (processedIds st1)) > MAX_IDS
         then
           (let excess = int (length (processedIds st1)) - MAX_IDS
            in st1\<lparr> processedIds :=
                      fold (\<lambda>id s. if excess \<le> 0 then s else removeAll id s)
                           (processedIds st1) (processedIds st1) \<rparr>)
         else st1)"

text \<open>\<^verbatim>\<open>dpp.match(/\[(\d{2}):(\d{2})/)\<close>: the first place where the pattern matches.\<close>

definition clockAt :: "jsstring \<Rightarrow> (nat \<times> nat) option" where
  "clockAt cs =
     (if 5 \<le> length cs \<and> cs ! 2 = 58
      then Option.bind (parseDigits (take 2 cs)) (\<lambda>h.
           Option.bind (parseDigits (take 2 (drop 3 cs))) (\<lambda>mn. Some (h, mn)))
      else None)"

fun matchClock :: "jsstring \<Rightarrow> (nat \<times> nat) option" where
  "matchClock [] = None"
| "matchClock (c # cs) =
     (if c = 91 then (case clockAt cs of None \<Rightarrow> matchClock cs | Some m \<Rightarrow> Some m)
      else matchClock cs)"

text \<open>
  The date src/bot.js records for a message: the current instant, or, when the row's
  \<^verbatim>\<open>data-pre-plain-text\<close> holds a clock \<^verbatim>\<open>[HH:MM\<close>, that time of the current day of
  the process's zone.
\<close>

definition msgDateOf :: "runtime \<Rightarrow> poll \<Rightarrow> row \<Rightarrow> instant" where
  "msgDateOf rt p lastRow =
     (case prePlain lastRow of
        None \<Rightarrow> read1 p
      | Some dpp \<Rightarrow>
          if dpp = [] then read1 p
          else
            (case matchClock dpp of
               None \<Rightarrow> read1 p
             | Some (h, mn) \<Rightarrow>
                 (let (y, m, d) = dateFields (procLocal rt (read2 p))
                  in newLocalDate rt y m d (int h) (int mn))))"

text \<open>The callback of \<^verbatim>\<open>setInterval\<close> in src/bot.js.\<close>

definition pollTick_bot :: "runtime \<Rightarrow> poll \<Rightarrow> rollingState \<Rightarrow> rollingState \<times> jsstring option" where
  "pollTick_bot rt p st =
     (if rows p = [] then (st, None)
      else
        (let lastRow = last (rows p)
         in case dataId lastRow of
              None \<Rightarrow> (st, None)
            | Some msgId \<Rightarrow>
                if msgId = [] \<or> msgId \<in> set (processedIds st) then (st, None)
                else
                  (let st1 = st\<lparr> processedIds := processedIds st @ [msgId],
                                  lastSeenId := Some msgId \<rparr>
                   in case innerText lastRow of
                        None \<Rightarrow> (st1, None)
                      | Some raw \<Rightarrow>
                          (let msgText = trim raw;
                               words = splitWs msgText
                           in if length words = 0 \<or> length words > 3 then (st1, None)
                              else
                                (let msgDate = msgDateOf rt p lastRow;
                                     st2 = prune (read3 p) st1;
                                     key = lowerCase rt msgText;
                                     prev = lookup (history st2) key;
                                     h = AList.update key (prev @ [msgDate]) (history st2);
                                     st3 = st2\<lparr> history := h, stored := persist h (stored st2) \<rparr>
                                 in (st3,
                                     if length prev > 0 \<and> inputReady p
                                     then Some (buildReply_bot rt msgText prev) else None))))))"

section \<open>Observations and examples\<close>

text \<open>The callback finds, as the newest row, the message with identifier \<open>i\<close> and
  text \<open>raw\<close>.\<close>

definition observes :: "poll \<Rightarrow> jsstring \<Rightarrow> jsstring \<Rightarrow> bool" where
  "observes p i raw \<longleftrightarrow>
     rows p \<noteq> [] \<and> dataId (last (rows p)) = Some i \<and> innerText (last (rows p)) = Some raw"

text \<open>
  The examples run in January, when \<^verbatim>\<open>Asia/Jerusalem\<close> is two hours ahead of UTC:
  \<open>israelWinter\<close> has the Node process in that zone too, \<open>newYorkWinter\<close> has it five
  hours behind UTC. \<open>pollAt t i raw\<close> is a run of the callback at the instant \<open>t\<close> that
  finds the message \<open>i\<close> with the text \<open>raw\<close> and no \<^verbatim>\<open>data-pre-plain-text\<close>.
\<close>

definition israelWinter :: runtime where
  "israelWinter = fixedRuntime 7200000 7200000"

definition newYorkWinter :: runtime where
  "newYorkWinter = fixedRuntime 7200000 (- 18000000)"

definition pollAt :: "instant \<Rightarrow> jsstring \<Rightarrow> jsstring \<Rightarrow> poll" where
  "pollAt t i raw =
     \<lparr> rows = [\<lparr> dataId = Some i, innerText = Some raw, prePlain = None \<rparr>],
       inputReady = True, read1 = t, read2 = t, read3 = t \<rparr>"

definition freshMidnight :: "int \<Rightarrow> midnightState" where
  "freshMidnight m = \<lparr> history = [], processedIds = [], stored = None, lastPruneMidnight = m \<rparr>"

definition freshRolling :: rollingState where
  "freshRolling = \<lparr> history = [], processedIds = [], stored = None, lastSeenId = None \<rparr>"

text \<open>A run of the callback at the instant \<open>t\<close> that finds no message row.\<close>

definition idlePoll :: "instant \<Rightarrow> poll" where
  "idlePoll t = \<lparr> rows = [], inputReady = True, read1 = t, read2 = t, read3 = t \<rparr>"

text \<open>A state of src/bot.js that has processed 2000 messages, its table empty.\<close>

definition fullRolling :: rollingState where
  "fullRolling =
     \<lparr> history = [], processedIds = map (\<lambda>n. [n]) [0..<2000], stored = None,
       lastSeenId = None \<rparr>"

section \<open>Successive runs of the callback\<close>

text \<open>
  \<^verbatim>\<open>setInterval\<close> runs the callback again and again. A run begins in the state
  the run before it left: the runs are taken one after the other, none beginning
  before the one before it has returned.
\<close>

fun pollTicks :: "runtime \<Rightarrow> poll list \<Rightarrow> midnightState \<Rightarrow> midnightState" where
  "pollTicks rt [] st = st"
| "pollTicks rt (p # ps) st = pollTicks rt ps (fst (pollTick rt p st))"

fun pollTicks_bot :: "runtime \<Rightarrow> poll list \<Rightarrow> rollingState \<Rightarrow> rollingState" where
  "pollTicks_bot rt [] st = st"
| "pollTicks_bot rt (p # ps) st = pollTicks_bot rt ps (fst (pollTick_bot rt p st))"

text \<open>
  The observations a sequence of runs makes, told without the table. The message a
  run finds is the newest row, if it has an identifier; \<open>seen ids p\<close> are the identifiers
  processed once the run \<open>p\<close> is over, \<open>ids\<close> being those processed before it. A message
  is observed once, by the first run that finds it. \<open>occurrences rt key ids ps\<close> are
  the times of the observations of \<open>key\<close> that the runs \<open>ps\<close> of part_000 make, in
  their order: a run observes \<open>key\<close> when the message it finds is new, its text is
  qualifying and has that key, and the time of the observation is the clock reading
  \<^verbatim>\<open>currentTimestamp\<close> of the run.
\<close>

definition newest :: "poll \<Rightarrow> (jsstring \<times> jsstring option) option" where
  "newest p =
     (if rows p = [] then None
      else case dataId (last (rows p)) of
             None \<Rightarrow> None
           | Some i \<Rightarrow> if i = [] then None else Some (i, innerText (last (rows p))))"

definition seen :: "jsstring list \<Rightarrow> poll \<Rightarrow> jsstring list" where
  "seen ids p =
     (case newest p of
        None \<Rightarrow> ids
      | Some (i, txt) \<Rightarrow> if i \<in> set ids then ids else ids @ [i])"

definition occurrence :: "runtime \<Rightarrow> jsstring \<Rightarrow> jsstring list \<Rightarrow> poll \<Rightarrow> instant list" where
  "occurrence rt key ids p =
     (case newest p of
        None \<Rightarrow> []
      | Some (i, txt) \<Rightarrow>
          (case txt of
             None \<Rightarrow> []
           | Some raw \<Rightarrow>
               if i \<notin> set ids \<and> qualifying raw \<and> lowerCase rt (trim raw) = key
               then [read3 p] else []))"

fun occurrences :: "runtime \<Rightarrow> jsstring \<Rightarrow> jsstring list \<Rightarrow> poll list \<Rightarrow> instant list" where
  "occurrences rt key ids [] = []"
| "occurrences rt key ids (p # ps) =
     occurrence rt key ids p @ occurrences rt key (seen ids p) ps"

text \<open>
  The same for src/bot.js. The texts it tracks are those that pass its guard
  \<^verbatim>\<open>words.length === 0 || words.length > 3\<close> (every qualifying text, and the text
  that is empty after trimming, whose split is one empty word), and the time of an
  observation is the \<^verbatim>\<open>msgDate\<close> of the run.
\<close>

definition tracked_bot :: "jsstring \<Rightarrow> bool" where
  "tracked_bot raw \<longleftrightarrow>
     \<not> (length (splitWs (trim raw)) = 0 \<or> length (splitWs (trim raw)) > 3)"

definition occurrence_bot :: "runtime \<Rightarrow> jsstring \<Rightarrow> jsstring list \<Rightarrow> poll \<Rightarrow> instant list" where
  "occurrence_bot rt key ids p =
     (case newest p of
        None \<Rightarrow> []
      | Some (i, txt) \<Rightarrow>
          (case txt of
             None \<Rightarrow> []
           | Some raw \<Rightarrow>
               if i \<notin> set ids \<and> tracked_bot raw \<and> lowerCase rt (trim raw) = key
               then [msgDateOf rt p (last (rows p))] else []))"

fun occurrences_bot :: "runtime \<Rightarrow> jsstring \<Rightarrow> jsstring list \<Rightarrow> poll list \<Rightarrow> instant list" where
  "occurrences_bot rt key ids [] = []"
| "occurrences_bot rt key ids (p # ps) =
     occurrence_bot rt key ids p @ occurrences_bot rt key (seen ids p) ps"

text \<open>
  Nothing is evicted during a sequence of runs. In part_000 eviction is the work of the
  daily check, which does nothing as long as the boundary of the day is not after
  \<^verbatim>\<open>lastPruneMidnight\<close>. In src/bot.js \<^verbatim>\<open>prune\<close> runs with every tracked message:
  \<open>nothingPruned rt ps st\<close> says that, at every run of \<open>ps\<close>, eviction with the cutoff
  of that run leaves the table as it is and the identifiers are fewer than \<^verbatim>\<open>MAX_IDS\<close>.
\<close>

definition noRollover :: "runtime \<Rightarrow> poll list \<Rightarrow> midnightState \<Rightarrow> bool" where
  "noRollover rt ps st \<longleftrightarrow>
     list_all (\<lambda>p. \<not> lastPruneMidnight st < getIsraelMidnight rt (read1 p)) ps"

fun nothingPruned :: "runtime \<Rightarrow> poll list \<Rightarrow> rollingState \<Rightarrow> bool" where
  "nothingPruned rt [] st \<longleftrightarrow> True"
| "nothingPruned rt (p # ps) st \<longleftrightarrow>
     evict (read3 p - DAY_MS) (history st) = history st
     \<and> int (length (processedIds st)) < MAX_IDS
     \<and> nothingPruned rt ps (fst (pollTick_bot rt p st))"

section \<open>Texts that differ in letter case\<close>







section \<open>Eviction removes what is before the cutoff\<close>

lemma key_in_fst: "(k, v) \<in> set h \<Longrightarrow> k \<in> fst ` set h"
  by force

lemma update_middle:
  "k \<notin> fst ` set pre \<Longrightarrow> AList.update k v (pre @ (k, a) # es) = pre @ (k, v) # es"
  by (induction pre) auto

lemma delete_absent: "k \<notin> fst ` set es \<Longrightarrow> AList.delete k es = es"
  by (induction es) auto

lemma delete_middle:
  "k \<notin> fst ` set pre \<Longrightarrow> k \<notin> fst ` set es \<Longrightarrow>
   AList.delete k (pre @ (k, a) # es) = pre @ es"
  by (induction pre) (auto simp: delete_absent)

lemma evictSpec_Cons:
  "evictSpec c (e # h) =
     (if filter (\<lambda>t. \<not> t < c) (snd e) = [] then evictSpec c h
      else (fst e, filter (\<lambda>t. \<not> t < c) (snd e)) # evictSpec c h)"
  by (simp add: evictSpec_def)

text \<open>The loop invariant: the entries already visited are in their final form, the
  others are untouched.\<close>

lemma evict_loop:
  "distinct (map fst (pre @ es)) \<Longrightarrow> fold (pruneEntry c) es (pre @ es) = pre @ evictSpec c es"
proof (induction es arbitrary: pre)
  case Nil
  then show ?case by (simp add: evictSpec_def)
next
  case (Cons e es)
  obtain k a where e: "e = (k, a)" by (cases e)
  from Cons.prems have k1: "k \<notin> fst ` set pre" and k2: "k \<notin> fst ` set es"
    and d: "distinct (map fst (pre @ es))"
    by (auto simp: e)
  let ?left = "filter (\<lambda>t. c \<le> t) a"
  show ?case
  proof (cases "?left = []")
    case True
    then have "pruneEntry c e (pre @ e # es) = pre @ es"
      using k1 k2 by (simp add: pruneEntry_def e delete_middle)
    moreover have "evictSpec c (e # es) = evictSpec c es"
      using True by (simp add: evictSpec_Cons e not_less)
    ultimately show ?thesis using Cons.IH [OF d] by simp
  next
    case False
    then have "pruneEntry c e (pre @ e # es) = (pre @ [(k, ?left)]) @ es"
      using k1 by (simp add: pruneEntry_def e update_middle)
    moreover have "evictSpec c (e # es) = (k, ?left) # evictSpec c es"
      using False by (simp add: evictSpec_Cons e not_less)
    moreover have "distinct (map fst ((pre @ [(k, ?left)]) @ es))"
      using Cons.prems by (simp add: e)
    ultimately show ?thesis using Cons.IH [of "pre @ [(k, ?left)]"] by simp
  qed
qed

lemma evict_eq_spec: "distinct (map fst h) \<Longrightarrow> evict c h = evictSpec c h"
  using evict_loop [of "[]" h c] by (simp add: evict_def)

lemma evictSpec_keys: "fst ` set (evictSpec c h) \<subseteq> fst ` set h"
  by (auto simp: evictSpec_def intro: key_in_fst)

lemma distinct_evictSpec: "distinct (map fst h) \<Longrightarrow> distinct (map fst (evictSpec c h))"
proof (induction h)
  case Nil
  then show ?case by (simp add: evictSpec_def)
next
  case (Cons e h)
  then show ?case using evictSpec_keys [of c h] by (auto simp: evictSpec_Cons)
qed

lemma distinct_evict: "distinct (map fst h) \<Longrightarrow> distinct (map fst (evict c h))"
  by (simp add: evict_eq_spec distinct_evictSpec)

lemma evictSpec_Nil: "evictSpec c [] = []"
  by (simp add: evictSpec_def)

lemma evictSpec_idem: "evictSpec c (evictSpec c h) = evictSpec c h"
  by (induction h) (auto simp: evictSpec_Cons evictSpec_Nil)

lemma map_of_evictSpec:
  "distinct (map fst h) \<Longrightarrow>
   map_of (evictSpec c h) k =
     (case map_of h k of
        None \<Rightarrow> None
      | Some arr \<Rightarrow> if filter (\<lambda>t. \<not> t < c) arr = [] then None
                    else Some (filter (\<lambda>t. \<not> t < c) arr))"
proof (induction h)
  case Nil
  then show ?case by (simp add: evictSpec_def)
next
  case (Cons e h)
  then have IH: "map_of (evictSpec c h) k =
     (case map_of h k of
        None \<Rightarrow> None
      | Some arr \<Rightarrow> if filter (\<lambda>t. \<not> t < c) arr = [] then None
                    else Some (filter (\<lambda>t. \<not> t < c) arr))"
    and fresh: "fst e \<notin> fst ` set h"
    by simp_all
  show ?case
  proof (cases "k = fst e")
    case True
    with fresh have "map_of h k = None"
      by (simp add: map_of_eq_None_iff)
    then show ?thesis using True IH by (cases e) (simp add: evictSpec_Cons)
  next
    case False
    then show ?thesis using IH by (cases e) (simp add: evictSpec_Cons)
  qed
qed

lemma evict_twice: "distinct (map fst h) \<Longrightarrow> evict c (evict c h) = evict c h"
  by (simp add: evict_eq_spec distinct_evictSpec evictSpec_idem)

section \<open>C9: eviction is idempotent\<close>

lemma persist_twice: "persist h (persist h old) = persist h old"
  by (simp add: persist_def split: option.splits)

lemma fold_removeAll: "fold removeAll xs ys = filter (\<lambda>y. y \<notin> set xs) ys"
  by (induction xs arbitrary: ys) (auto simp: removeAll_filter_not_eq intro: filter_cong)

lemma wipe_all: "fold removeAll xs xs = []"
  by (simp add: fold_removeAll)

text \<open>The whole state, not only the table, is the same after the second run: nothing
  is left to remove, the file is written with the same content, and the identifiers
  are already cleared.\<close>

lemma midnightPrune_twice:
  "distinct (map fst (history st)) \<Longrightarrow>
   getIsraelMidnight rt now' = getIsraelMidnight rt now \<Longrightarrow>
   midnightPrune rt now' (midnightPrune rt now st) = midnightPrune rt now st"
  by (simp add: midnightPrune_def Let_def evict_twice persist_twice)

lemma prune_twice:
  "distinct (map fst (history st)) \<Longrightarrow> prune now (prune now st) = prune now st"
  by (simp add: prune_def Let_def evict_twice persist_twice wipe_all MAX_IDS_def)

text \<open>
  C9. Running the eviction loop of \<^verbatim>\<open>prune\<close> / \<^verbatim>\<open>midnightPrune\<close> twice with the same
  boundary, with nothing appended in between, leaves the history table exactly as one
  run leaves it. The keys of the table are distinct, as those of a \<^verbatim>\<open>Map\<close> are.
\<close>

theorem evict_idempotent:
  assumes "distinct (map fst h)"
  shows "evict boundary (evict boundary h) = evict boundary h"
  using assms by (rule evict_twice)

theorem evict_idempotent_witness:
  "distinct (map fst [([104, 105], [5, 12 :: int]), ([111, 107 :: nat], [3])])
   \<and> evict 10 (evict 10 [([104, 105], [5, 12]), ([111, 107], [3])])
       = evict 10 [([104, 105], [5, 12]), ([111, 107], [3])]
   \<and> evict 10 [([104, 105], [5, 12]), ([111, 107], [3])] = [([104, 105], [12])]"
  using evict_idempotent [of "[([104, 105], [5, 12]), ([111, 107], [3])]" 10]
  by (simp add: evict_def pruneEntry_def)

section \<open>Concrete instants\<close>

text \<open>
  The day used in the examples: 10 January 2024 in a zone two hours ahead of UTC.
  Its midnight is the instant 1704837600000; 08:00 of that day is 1704866400000 and
  09:30 is 1704871800000.
\<close>

lemma midnight_10jan:
  "getIsraelMidnight israelWinter 1704866400000 = 1704837600000"
  by code_simp

lemma clock_0800: "clockHHMM israelWinter 1704866400000 = [48, 56, 58, 48, 48]"
  by code_simp

lemma midnight_10jan_0930: "getIsraelMidnight israelWinter 1704871800000 = 1704837600000"
  by code_simp

lemma lowerCase_israelWinter: "lowerCase israelWinter = asciiLower"
  by (simp add: israelWinter_def fixedRuntime_def)

lemma clock_0930: "clockHHMM israelWinter 1704871800000 = [48, 57, 58, 51, 48]"
  by code_simp

text \<open>08:30 of that day is 1704868200000 and 09:00 is 1704870000000.\<close>

lemma midnight_10jan_0830: "getIsraelMidnight israelWinter 1704868200000 = 1704837600000"
  by code_simp

lemma midnight_10jan_083004: "getIsraelMidnight israelWinter 1704868204000 = 1704837600000"
  by code_simp

lemma midnight_10jan_0900: "getIsraelMidnight israelWinter 1704870000000 = 1704837600000"
  by code_simp

lemma clock_0900: "clockHHMM israelWinter 1704870000000 = [48, 57, 58, 48, 48]"
  by code_simp

section \<open>C1: which instants eviction removes\<close>

lemma history_midnightPrune:
  "history (midnightPrune rt now st) = evict (getIsraelMidnight rt now) (history st)"
  by (simp add: midnightPrune_def Let_def)

lemma history_prune: "history (prune now st) = evict (now - DAY_MS) (history st)"
  by (simp add: prune_def Let_def)

text \<open>
  C1, as stated, fails on \<^verbatim>\<open>prune\<close> of src/bot.js: at 08:00 of 10 January it keeps
  an observation made at 22:00 of 9 January (1704830400000), which is strictly before
  the midnight of 10 January; eviction at that midnight would have removed it and
  deleted the key.
\<close>

theorem prune_rolling_counterexample:
  "history (prune 1704866400000
      \<lparr> history = [([104, 105], [1704830400000])], processedIds = [], stored = None,
        lastSeenId = None \<rparr>) = [([104, 105], [1704830400000])]
   \<and> getIsraelMidnight israelWinter 1704866400000 = 1704837600000
   \<and> (1704830400000 :: int) < 1704837600000
   \<and> evictSpec 1704837600000 [([104, 105], [1704830400000])] = []"
  by (simp add: midnight_10jan history_prune evict_def pruneEntry_def DAY_MS_def evictSpec_def)

text \<open>
  C1, amended. \<^verbatim>\<open>midnightPrune\<close> (part_000, backup/bot.js) removes from every key
  exactly the instants strictly before the cutoff that \<^verbatim>\<open>getIsraelMidnight\<close> returns
  and deletes a key left with none; \<^verbatim>\<open>prune\<close> (src/bot.js) does the same with the
  cutoff 24 hours before the current instant, a rolling window.
\<close>

theorem eviction_cutoffs:
  assumes "distinct (map fst (history st))" and "distinct (map fst (history bst))"
  shows "history (midnightPrune rt now st) = evictSpec (getIsraelMidnight rt now) (history st)
       \<and> map_of (history (midnightPrune rt now st)) k =
           (case map_of (history st) k of
              None \<Rightarrow> None
            | Some arr \<Rightarrow>
                if filter (\<lambda>t. \<not> t < getIsraelMidnight rt now) arr = [] then None
                else Some (filter (\<lambda>t. \<not> t < getIsraelMidnight rt now) arr))
       \<and> history (prune now' bst) = evictSpec (now' - DAY_MS) (history bst)
       \<and> map_of (history (prune now' bst)) k =
           (case map_of (history bst) k of
              None \<Rightarrow> None
            | Some arr \<Rightarrow>
                if filter (\<lambda>t. \<not> t < now' - DAY_MS) arr = [] then None
                else Some (filter (\<lambda>t. \<not> t < now' - DAY_MS) arr))"
  using assms
  by (simp add: history_midnightPrune history_prune evict_eq_spec map_of_evictSpec)

theorem eviction_cutoffs_witness:
  "map_of (history (midnightPrune israelWinter 1704866400000
      \<lparr> history = [([104, 105], [1704830400000, 1704837600000]), ([111, 107], [1704830400000])],
        processedIds = [[49]], stored = None, lastPruneMidnight = 1704751200000 \<rparr>)) [111, 107]
     = None
   \<and> history (midnightPrune israelWinter 1704866400000
      \<lparr> history = [([104, 105], [1704830400000, 1704837600000]), ([111, 107], [1704830400000])],
        processedIds = [[49]], stored = None, lastPruneMidnight = 1704751200000 \<rparr>)
     = [([104, 105], [1704837600000])]
   \<and> history (prune 1704866400000
      \<lparr> history = [([104, 105], [1704779999999, 1704780000000])], processedIds = [],
        stored = None, lastSeenId = None \<rparr>)
     = [([104, 105], [1704780000000])]"
proof -
  let ?st = "\<lparr> history = [([104, 105], [1704830400000, 1704837600000]),
                           ([111 :: nat, 107], [1704830400000 :: int])],
               processedIds = [[49]], stored = None, lastPruneMidnight = 1704751200000 \<rparr>"
  let ?bst = "\<lparr> history = [([104 :: nat, 105], [1704779999999 :: int, 1704780000000])],
                processedIds = [], stored = None, lastSeenId = None \<rparr>"
  have d1: "distinct (map fst (history ?st))" by simp
  have d2: "distinct (map fst (history ?bst))" by simp
  show ?thesis
    using eviction_cutoffs [OF d1 d2, of israelWinter 1704866400000
        "[111, 107]" 1704866400000]
    by (simp add: midnight_10jan DAY_MS_def evictSpec_def)
qed

section \<open>C6: the reply text\<close>

lemma pad2: "pad 2 n = [48 + (n div 10) mod 10, 48 + n mod 10]"
  by (simp add: numeral_2_eq_2)

lemma hourOf_range: "0 \<le> hourOf tv \<and> hourOf tv < 24"
  by (simp add: hourOf_def msPerDay_def div_less_iff_less_mult pos_imp_zdiv_nonneg_iff)

lemma minuteOf_range: "0 \<le> minuteOf tv \<and> minuteOf tv < 60"
  by (simp add: minuteOf_def div_less_iff_less_mult pos_imp_zdiv_nonneg_iff)

text \<open>A time is written as two digits of the hour, a colon and two digits of the minute
  of the zone's local time.\<close>

lemma clockHHMM_digits:
  "clockHHMM rt t =
     [48 + nat (hourOf (zoneLocal rt t)) div 10, 48 + nat (hourOf (zoneLocal rt t)) mod 10, 58,
      48 + nat (minuteOf (zoneLocal rt t)) div 10, 48 + nat (minuteOf (zoneLocal rt t)) mod 10]"
proof -
  have h: "nat (hourOf (zoneLocal rt t)) div 10 < 10"
    using hourOf_range [of "zoneLocal rt t"] by linarith
  have m: "nat (minuteOf (zoneLocal rt t)) div 10 < 10"
    using minuteOf_range [of "zoneLocal rt t"] by linarith
  show ?thesis using h m by (simp add: clockHHMM_def pad2 Let_def)
qed

text \<open>
  C6, as stated, fails on \<^verbatim>\<open>buildReply\<close> of src/bot.js: for prior observations at
  08:00 and 09:30 it lists 09:30 first.
\<close>

theorem buildReply_bot_descending_counterexample:
  "buildReply_bot israelWinter [104, 105] [1704866400000, 1704871800000]
     = botHead @ [104, 105] @ botMid @ [48, 57, 58, 51, 48] @ [32, 1493, 1489]
       @ [48, 56, 58, 48, 48] @ [32, 40, 73, 76, 84, 41]"
  by (simp add: buildReply_bot_def clock_0800 clock_0930)

text \<open>
  C6, amended. The reply is the variant's fixed template around the original text and
  the list of the prior timestamps, each once, each written as the HH:MM of its local
  time in the zone: in ascending order and joined by a comma and a space in part_000
  and backup/bot.js, in descending order and joined by the Hebrew " and at" in
  src/bot.js. The text is a function of the message, the timestamps and the zone only.
\<close>

theorem buildReply_format:
  "\<exists>ascending. sorted ascending \<and> mset ascending = mset stamps
     \<and> buildReply rt msg stamps =
         replyHead @ msg @ replyMid @ joinWith [44, 32] (map (clockHHMM rt) ascending)
     \<and> buildReply_backup rt msg stamps =
         backupHead @ msg @ backupMid @ joinWith [44, 32] (map (clockHHMM rt) ascending) @ [41]
     \<and> buildReply_bot rt msg stamps =
         botHead @ msg @ botMid @ joinWith [32, 1493, 1489] (map (clockHHMM rt) (rev ascending))
         @ [32, 40, 73, 76, 84, 41]
     \<and> clockHHMM rt t =
         [48 + nat (hourOf (zoneLocal rt t)) div 10, 48 + nat (hourOf (zoneLocal rt t)) mod 10,
          58,
          48 + nat (minuteOf (zoneLocal rt t)) div 10, 48 + nat (minuteOf (zoneLocal rt t)) mod 10]
     \<and> 0 \<le> hourOf (zoneLocal rt t) \<and> hourOf (zoneLocal rt t) < 24
     \<and> 0 \<le> minuteOf (zoneLocal rt t) \<and> minuteOf (zoneLocal rt t) < 60"
  using clockHHMM_digits [of rt t] hourOf_range [of "zoneLocal rt t"]
    minuteOf_range [of "zoneLocal rt t"]
  by (intro exI [of _ "sort stamps"])
     (simp add: buildReply_def buildReply_backup_def buildReply_bot_def)

text \<open>The reply of part_000 for prior observations at 09:30 and 08:00, given in that order.\<close>

lemma buildReply_example:
  "buildReply israelWinter [104, 105] [1704871800000, 1704866400000]
     = replyHead @ [104, 105] @ replyMid @ [48, 56, 58, 48, 48] @ [44, 32] @ [48, 57, 58, 51, 48]"
  by (simp add: buildReply_def clock_0800 clock_0930)

section \<open>The words of a message\<close>

lemma splitWs_not_Nil: "splitWs s \<noteq> []"
  by (induction s) (auto split: list.splits)

lemma hd_splitWs: "s \<noteq> [] \<Longrightarrow> \<not> isWhite (hd s) \<Longrightarrow> hd (splitWs s) \<noteq> []"
  by (cases s) (auto split: list.splits)

lemma tl_splitWs: "s = [] \<or> \<not> isWhite (last s) \<Longrightarrow> [] \<notin> set (tl (splitWs s))"
proof (induction s)
  case Nil
  then show ?case by simp
next
  case (Cons c cs)
  show ?case
  proof (cases "isWhite c")
    case True
    with Cons.prems have ne: "cs \<noteq> []" by auto
    with Cons.prems have l: "\<not> isWhite (last cs)" by simp
    show ?thesis
    proof (cases "isWhite (hd cs)")
      case True
      then show ?thesis using \<open>isWhite c\<close> ne l Cons.IH by simp
    next
      case False
      have "splitWs cs = hd (splitWs cs) # tl (splitWs cs)"
        using splitWs_not_Nil [of cs] by simp
      then have "set (splitWs cs) = insert (hd (splitWs cs)) (set (tl (splitWs cs)))"
        by (metis list.simps(15))
      then show ?thesis
        using \<open>isWhite c\<close> False ne l Cons.IH hd_splitWs [of cs] by simp
    qed
  next
    case False
    have "cs = [] \<or> \<not> isWhite (last cs)" using Cons.prems by auto
    then have "[] \<notin> set (tl (splitWs cs))" by (rule Cons.IH)
    then show ?thesis using False by (auto split: list.splits)
  qed
qed

lemma splitWs_no_empty:
  assumes "s \<noteq> []" "\<not> isWhite (hd s)" "\<not> isWhite (last s)"
  shows "[] \<notin> set (splitWs s)"
proof -
  have "splitWs s = hd (splitWs s) # tl (splitWs s)"
    using splitWs_not_Nil [of s] by simp
  then have "set (splitWs s) = insert (hd (splitWs s)) (set (tl (splitWs s)))"
    by (metis list.simps(15))
  then show ?thesis using assms hd_splitWs [of s] tl_splitWs [of s] by simp
qed

lemma trim_ends: "trim s = [] \<or> (\<not> isWhite (hd (trim s)) \<and> \<not> isWhite (last (trim s)))"
proof (cases "trim s = []")
  case True
  then show ?thesis by simp
next
  case False
  let ?a = "dropWhile isWhite s"
  let ?b = "dropWhile isWhite (rev ?a)"
  from False have b: "?b \<noteq> []" by (simp add: trim_def)
  have a: "?a \<noteq> []"
  proof
    assume e: "?a = []"
    have "?b = []" unfolding e by simp
    with b show False by blast
  qed
  have "last (trim s) = hd ?b" using b by (simp add: trim_def last_rev)
  then have l: "\<not> isWhite (last (trim s))" using b hd_dropWhile [of isWhite "rev ?a"] by simp
  have "rev ?a = takeWhile isWhite (rev ?a) @ ?b" by simp
  then have "last (rev ?a) = last ?b" using b by (metis last_appendR)
  then have "hd (trim s) = hd ?a" using a b by (simp add: trim_def hd_rev last_rev)
  then have "\<not> isWhite (hd (trim s))" using a hd_dropWhile [of isWhite s] by simp
  then show ?thesis using l by simp
qed

lemma words_trim: "trim raw \<noteq> [] \<Longrightarrow> filter (\<lambda>w. w \<noteq> []) (splitWs (trim raw)) = splitWs (trim raw)"
  using trim_ends [of raw] splitWs_no_empty [of "trim raw"] by (auto simp: filter_id_conv)

lemma wordCount_pos: "1 \<le> wordCount raw \<Longrightarrow> trim raw \<noteq> []"
  by (auto simp: wordCount_def)

lemma wordCount_split: "trim raw \<noteq> [] \<Longrightarrow> wordCount raw = length (splitWs (trim raw))"
  by (simp add: wordCount_def words_trim)

lemma wordsOf_count: "length (wordsOf (trim raw)) = wordCount raw"
  by (simp add: wordsOf_def wordCount_def)

section \<open>The callback, step by step\<close>

lemma lookup_update: "lookup (AList.update k v h) k = v"
  by (simp add: lookup_def update_conv')

lemma lookup_update_other: "k' \<noteq> k \<Longrightarrow> lookup (AList.update k v h) k' = lookup h k'"
  by (simp add: lookup_def update_conv')

lemma part000_accepts: "qualifying raw \<longleftrightarrow>
   \<not> (length (wordsOf (trim raw)) = 0 \<or> length (wordsOf (trim raw)) > 3 \<or> length (trim raw) = 0)"
  using wordCount_pos [of raw] by (auto simp: qualifying_def wordsOf_count)

lemma pollTick_accept:
  assumes "rows p \<noteq> []" and "dataId (last (rows p)) = Some i" and "i \<noteq> []"
    and "i \<notin> set (processedIds (rollover rt p st))"
    and "innerText (last (rows p)) = Some raw" and "qualifying raw"
  shows "pollTick rt p st =
     ((rollover rt p st)
        \<lparr> processedIds := processedIds (rollover rt p st) @ [i],
          history := AList.update (lowerCase rt (trim raw))
                       (lookup (history (rollover rt p st)) (lowerCase rt (trim raw)) @ [read3 p])
                       (history (rollover rt p st)),
          stored := persist
                      (AList.update (lowerCase rt (trim raw))
                         (lookup (history (rollover rt p st)) (lowerCase rt (trim raw)) @ [read3 p])
                         (history (rollover rt p st)))
                      (stored (rollover rt p st)) \<rparr>,
      if lookup (history (rollover rt p st)) (lowerCase rt (trim raw)) \<noteq> [] \<and> inputReady p
      then Some (buildReply rt (trim raw)
                   (lookup (history (rollover rt p st)) (lowerCase rt (trim raw))))
      else None)"
  using assms part000_accepts [of raw]
  by (simp add: pollTick_def Let_def)

lemma pollTick_reject:
  assumes "innerText (last (rows p)) = Some raw" and "\<not> qualifying raw"
  shows "history (fst (pollTick rt p st)) = history (rollover rt p st)
       \<and> stored (fst (pollTick rt p st)) = stored (rollover rt p st)
       \<and> lastPruneMidnight (fst (pollTick rt p st)) = lastPruneMidnight (rollover rt p st)
       \<and> snd (pollTick rt p st) = None"
  using assms part000_accepts [of raw]
  by (auto simp: pollTick_def Let_def split: option.splits)

lemma pollTick_seen:
  assumes "dataId (last (rows p)) = Some i" and "i \<in> set (processedIds (rollover rt p st))"
  shows "pollTick rt p st = (rollover rt p st, None)"
  using assms by (simp add: pollTick_def Let_def)

lemma rollover_same:
  "\<not> lastPruneMidnight st < getIsraelMidnight rt (read1 p) \<Longrightarrow> rollover rt p st = st"
  by (simp add: rollover_def Let_def)

lemma bot_accepts:
  "qualifying raw \<Longrightarrow> \<not> (length (splitWs (trim raw)) = 0 \<or> length (splitWs (trim raw)) > 3)"
  using wordCount_pos [of raw] wordCount_split [of raw] by (auto simp: qualifying_def)

lemma pollTick_bot_accept:
  assumes "rows p \<noteq> []" and "dataId (last (rows p)) = Some i" and "i \<noteq> []"
    and "i \<notin> set (processedIds st)"
    and "innerText (last (rows p)) = Some raw" and "qualifying raw"
  shows "history (fst (pollTick_bot rt p st)) =
           AList.update (lowerCase rt (trim raw))
             (lookup (evict (read3 p - DAY_MS) (history st)) (lowerCase rt (trim raw))
              @ [msgDateOf rt p (last (rows p))])
             (evict (read3 p - DAY_MS) (history st))
       \<and> snd (pollTick_bot rt p st) =
           (if lookup (evict (read3 p - DAY_MS) (history st)) (lowerCase rt (trim raw)) \<noteq> []
               \<and> inputReady p
            then Some (buildReply_bot rt (trim raw)
                         (lookup (evict (read3 p - DAY_MS) (history st)) (lowerCase rt (trim raw))))
            else None)"
  using assms bot_accepts [of raw]
  by (simp add: pollTick_bot_def Let_def history_prune)

lemma pollTick_keeps_boundary:
  "lastPruneMidnight (fst (pollTick rt p st)) = lastPruneMidnight (rollover rt p st)"
  by (auto simp: pollTick_def Let_def split: option.splits)

text \<open>src/bot.js: \<^verbatim>\<open>prune\<close> empties the set of identifiers once it holds more than
  \<^verbatim>\<open>MAX_IDS\<close> of them.\<close>

lemma processedIds_prune:
  "processedIds (prune now st) =
     (if MAX_IDS < int (length (processedIds st)) then [] else processedIds st)"
  by (simp add: prune_def Let_def MAX_IDS_def wipe_all)

text \<open>src/bot.js: a run that finds no new message returns at once.\<close>

lemma pollTick_bot_idle:
  "newest q = None \<or> (\<exists>txt. newest q = Some (j, txt) \<and> j \<in> set (processedIds bst)) \<Longrightarrow>
   pollTick_bot rt q bst = (bst, None)"
  by (auto simp: pollTick_bot_def newest_def Let_def split: option.splits if_splits)

section \<open>Runs with no eviction\<close>

text \<open>
  part_000: a run with no day rollover adds to the list of a key the observation it
  makes of that key, and nothing else; it marks the message it finds as processed.
\<close>

lemma pollTick_quiet_step:
  assumes "\<not> lastPruneMidnight st < getIsraelMidnight rt (read1 p)"
  shows "lookup (history (fst (pollTick rt p st))) key
           = lookup (history st) key @ occurrence rt key (processedIds st) p
       \<and> processedIds (fst (pollTick rt p st)) = seen (processedIds st) p
       \<and> lastPruneMidnight (fst (pollTick rt p st)) = lastPruneMidnight st"
proof -
  have ro: "rollover rt p st = st" using assms by (rule rollover_same)
  show ?thesis
    using part000_accepts
    by (auto simp: pollTick_def ro Let_def newest_def seen_def occurrence_def
        lookup_update lookup_update_other split: option.splits)
qed

lemma pollTicks_quiet:
  "noRollover rt ps st \<Longrightarrow>
   lookup (history (pollTicks rt ps st)) key
     = lookup (history st) key @ occurrences rt key (processedIds st) ps
   \<and> lastPruneMidnight (pollTicks rt ps st) = lastPruneMidnight st"
proof (induction ps arbitrary: st)
  case Nil
  then show ?case by simp
next
  case (Cons p ps)
  from Cons.prems have q: "\<not> lastPruneMidnight st < getIsraelMidnight rt (read1 p)"
    by (simp add: noRollover_def)
  note s = pollTick_quiet_step [OF q, of key]
  from Cons.prems have "noRollover rt ps (fst (pollTick rt p st))"
    using s by (simp add: noRollover_def)
  from Cons.IH [OF this] show ?case using s by simp
qed

lemma pollTicks_ids:
  "noRollover rt ps st \<Longrightarrow> processedIds (pollTicks rt ps st) = foldl seen (processedIds st) ps"
proof (induction ps arbitrary: st)
  case Nil
  then show ?case by simp
next
  case (Cons p ps)
  from Cons.prems have q: "\<not> lastPruneMidnight st < getIsraelMidnight rt (read1 p)"
    by (simp add: noRollover_def)
  note s = pollTick_quiet_step [OF q, of "[]"]
  from Cons.prems have "noRollover rt ps (fst (pollTick rt p st))"
    using s by (simp add: noRollover_def)
  from Cons.IH [OF this] show ?case using s by simp
qed

lemma noRollover_cong:
  "lastPruneMidnight st = lastPruneMidnight st' \<Longrightarrow> noRollover rt ps st = noRollover rt ps st'"
  by (simp add: noRollover_def)

lemma noRollover_append:
  "noRollover rt (ps @ qs) st \<longleftrightarrow> noRollover rt ps st \<and> noRollover rt qs st"
  by (simp add: noRollover_def)

text \<open>The same for a run of src/bot.js whose \<^verbatim>\<open>prune\<close> has nothing to remove.\<close>

lemma pollTick_bot_quiet_step:
  assumes "evict (read3 p - DAY_MS) (history st) = history st"
    and "int (length (processedIds st)) < MAX_IDS"
  shows "lookup (history (fst (pollTick_bot rt p st))) key
           = lookup (history st) key @ occurrence_bot rt key (processedIds st) p
       \<and> processedIds (fst (pollTick_bot rt p st)) = seen (processedIds st) p"
  using assms
  by (auto simp: pollTick_bot_def Let_def newest_def seen_def occurrence_bot_def tracked_bot_def
      history_prune processedIds_prune lookup_update lookup_update_other split: option.splits)

lemma pollTicks_bot_quiet:
  "nothingPruned rt ps st \<Longrightarrow>
   lookup (history (pollTicks_bot rt ps st)) key
     = lookup (history st) key @ occurrences_bot rt key (processedIds st) ps"
proof (induction ps arbitrary: st)
  case Nil
  then show ?case by simp
next
  case (Cons p ps)
  from Cons.prems have q: "evict (read3 p - DAY_MS) (history st) = history st"
    "int (length (processedIds st)) < MAX_IDS"
    and r: "nothingPruned rt ps (fst (pollTick_bot rt p st))" by simp_all
  note s = pollTick_bot_quiet_step [OF q, of rt key]
  from Cons.IH [OF r] show ?case using s by simp
qed

lemma nothingPruned_append:
  "nothingPruned rt (ps @ qs) st \<longleftrightarrow>
     nothingPruned rt ps st \<and> nothingPruned rt qs (pollTicks_bot rt ps st)"
  by (induction ps arbitrary: st) auto

text \<open>
  Two observations whose texts have the same key, with any runs in between and nothing
  evicted: the list of the key before the second append is the list the first
  observation found, the time of the first observation, and the observations of the
  key in between; the second observation is answered with that list.
\<close>

lemma observations_run:
  assumes q1: "qualifying raw1" and q2: "qualifying raw2"
    and same: "lowerCase rt (trim raw1) = lowerCase rt (trim raw2)"
    and o1: "observes p1 i1 raw1" and o2: "observes p2 i2 raw2"
    and n1: "i1 \<noteq> []" and n2: "i2 \<noteq> []"
    and f1: "i1 \<notin> set (processedIds (rollover rt p1 st))"
    and f2: "i2 \<notin> set (processedIds (pollTicks rt (p1 # ps) st))"
    and keep: "noRollover rt (ps @ [p2]) (rollover rt p1 st)"
    and ready: "inputReady p2"
  shows "lookup (history (pollTicks rt (p1 # ps) st)) (lowerCase rt (trim raw1)) =
           lookup (history (rollover rt p1 st)) (lowerCase rt (trim raw1))
           @ read3 p1 # occurrences rt (lowerCase rt (trim raw1))
                          (processedIds (fst (pollTick rt p1 st))) ps
       \<and> snd (pollTick rt p2 (pollTicks rt (p1 # ps) st)) =
           Some (buildReply rt (trim raw2)
                   (lookup (history (pollTicks rt (p1 # ps) st)) (lowerCase rt (trim raw1))))
       \<and> lookup (history (fst (pollTick rt p2 (pollTicks rt (p1 # ps) st))))
           (lowerCase rt (trim raw1)) =
           lookup (history (pollTicks rt (p1 # ps) st)) (lowerCase rt (trim raw1)) @ [read3 p2]"
proof -
  let ?st1 = "fst (pollTick rt p1 st)"
  let ?s = "pollTicks rt ps ?st1"
  let ?k = "lowerCase rt (trim raw1)"
  let ?prior = "lookup (history (rollover rt p1 st)) ?k"
  from o1 have r1: "rows p1 \<noteq> []" "dataId (last (rows p1)) = Some i1"
    "innerText (last (rows p1)) = Some raw1" by (simp_all add: observes_def)
  from o2 have r2: "rows p2 \<noteq> []" "dataId (last (rows p2)) = Some i2"
    "innerText (last (rows p2)) = Some raw2" by (simp_all add: observes_def)
  have h1: "history ?st1 = AList.update ?k (?prior @ [read3 p1]) (history (rollover rt p1 st))"
    by (simp add: pollTick_accept [OF r1(1) r1(2) n1 f1 r1(3) q1])
  have l1: "lookup (history ?st1) ?k = ?prior @ [read3 p1]"
    by (simp add: h1 lookup_update)
  have b1: "lastPruneMidnight ?st1 = lastPruneMidnight (rollover rt p1 st)"
    by (rule pollTick_keeps_boundary)
  from keep have k1: "noRollover rt ps ?st1" and k2: "noRollover rt [p2] ?st1"
    using noRollover_cong [OF b1, of rt] by (simp_all add: noRollover_append)
  note run = pollTicks_quiet [OF k1, of ?k]
  have ls: "lookup (history ?s) ?k
            = ?prior @ read3 p1 # occurrences rt ?k (processedIds ?st1) ps"
    using run l1 by simp
  have "\<not> lastPruneMidnight ?s < getIsraelMidnight rt (read1 p2)"
    using k2 run by (simp add: noRollover_def)
  then have ro: "rollover rt p2 ?s = ?s" by (rule rollover_same)
  have f2': "i2 \<notin> set (processedIds (rollover rt p2 ?s))" using f2 by (simp add: ro)
  have ne: "lookup (history ?s) ?k \<noteq> []" by (simp add: ls)
  show ?thesis
    using ready ls ne
    by (simp add: pollTick_accept [OF r2(1) r2(2) n2 f2' r2(3) q2] ro same [symmetric] lookup_update)
qed

lemma observations_run_bot:
  assumes q1: "qualifying raw1" and q2: "qualifying raw2"
    and same: "lowerCase rt (trim raw1) = lowerCase rt (trim raw2)"
    and o1: "observes p1 i1 raw1" and o2: "observes p2 i2 raw2"
    and n1: "i1 \<noteq> []" and n2: "i2 \<noteq> []"
    and f1: "i1 \<notin> set (processedIds st)"
    and f2: "i2 \<notin> set (processedIds (pollTicks_bot rt (p1 # ps) st))"
    and keep: "nothingPruned rt (ps @ [p2]) (fst (pollTick_bot rt p1 st))"
    and ready: "inputReady p2"
  shows "lookup (history (pollTicks_bot rt (p1 # ps) st)) (lowerCase rt (trim raw1)) =
           lookup (evict (read3 p1 - DAY_MS) (history st)) (lowerCase rt (trim raw1))
           @ msgDateOf rt p1 (last (rows p1))
             # occurrences_bot rt (lowerCase rt (trim raw1))
                 (processedIds (fst (pollTick_bot rt p1 st))) ps
       \<and> snd (pollTick_bot rt p2 (pollTicks_bot rt (p1 # ps) st)) =
           Some (buildReply_bot rt (trim raw2)
                   (lookup (history (pollTicks_bot rt (p1 # ps) st)) (lowerCase rt (trim raw1))))
       \<and> lookup (history (fst (pollTick_bot rt p2 (pollTicks_bot rt (p1 # ps) st))))
           (lowerCase rt (trim raw1)) =
           lookup (history (pollTicks_bot rt (p1 # ps) st)) (lowerCase rt (trim raw1))
           @ [msgDateOf rt p2 (last (rows p2))]"
proof -
  let ?st1 = "fst (pollTick_bot rt p1 st)"
  let ?s = "pollTicks_bot rt ps ?st1"
  let ?k = "lowerCase rt (trim raw1)"
  let ?prior = "lookup (evict (read3 p1 - DAY_MS) (history st)) ?k"
  from o1 have r1: "rows p1 \<noteq> []" "dataId (last (rows p1)) = Some i1"
    "innerText (last (rows p1)) = Some raw1" by (simp_all add: observes_def)
  from o2 have r2: "rows p2 \<noteq> []" "dataId (last (rows p2)) = Some i2"
    "innerText (last (rows p2)) = Some raw2" by (simp_all add: observes_def)
  have h1: "history ?st1 = AList.update ?k (?prior @ [msgDateOf rt p1 (last (rows p1))])
                             (evict (read3 p1 - DAY_MS) (history st))"
    using pollTick_bot_accept [OF r1(1) r1(2) n1 f1 r1(3) q1, of rt] by simp
  have l1: "lookup (history ?st1) ?k = ?prior @ [msgDateOf rt p1 (last (rows p1))]"
    by (simp add: h1 lookup_update)
  from keep have k1: "nothingPruned rt ps ?st1" and k2: "nothingPruned rt [p2] ?s"
    by (simp_all add: nothingPruned_append)
  have ls: "lookup (history ?s) ?k
            = ?prior @ msgDateOf rt p1 (last (rows p1))
                # occurrences_bot rt ?k (processedIds ?st1) ps"
    using pollTicks_bot_quiet [OF k1, of ?k] l1 by simp
  from k2 have e: "evict (read3 p2 - DAY_MS) (history ?s) = history ?s" by simp
  have f2': "i2 \<notin> set (processedIds ?s)" using f2 by simp
  have ne: "lookup (history ?s) ?k \<noteq> []" by (simp add: ls)
  show ?thesis
    using ready ls ne pollTick_bot_accept [OF r2(1) r2(2) n2 f2' r2(3) q2, of rt]
    by (simp add: e same [symmetric] lookup_update)
qed

section \<open>Evaluating the examples\<close>

lemmas text_eval = isWhite_def trim_def wordsOf_def wordCount_def qualifying_def asciiLower_def
  lowerCase_israelWinter

lemmas fixture_eval = pollAt_def freshMidnight_def freshRolling_def observes_def

lemmas step_eval = pollTick_def rollover_def lookup_def Let_def midnight_10jan
  midnight_10jan_0930

lemmas bot_eval = pollTick_bot_def prune_def msgDateOf_def lookup_def Let_def evict_def
  pruneEntry_def DAY_MS_def MAX_IDS_def

lemmas run_eval = newest_def seen_def occurrence_def occurrence_bot_def tracked_bot_def
  noRollover_def midnight_10jan_0830 midnight_10jan_083004 midnight_10jan_0900

section \<open>C2: the second observation is answered with the prior times\<close>

text \<open>
  C2. A qualifying text is observed twice, as two messages, and nothing is evicted
  between the two observations. Any runs of the callback may lie between them: runs that
  find no message or the same message again, observations of other texts and of the
  same text. In part_000 no day rollover happens after the first observation, up to and
  including the run of the second; in src/bot.js no run after the first observation, up
  to and including that of the second, has anything to prune. Then the second
  observation is answered, and the reply lists the occurrence list as it stood before
  the second append: the occurrences the key had when the first observation was made,
  the time of the first observation, and the times of the observations of the key made
  in between. The time of the second observation is appended to that list in the
  table; the reply is built from the list without it.
\<close>

theorem second_observation_replies:
  "(qualifying raw \<and> observes p1 i1 raw \<and> observes p2 i2 raw \<and> i1 \<noteq> [] \<and> i2 \<noteq> []
      \<and> inputReady p2
      \<and> i1 \<notin> set (processedIds (rollover rt p1 st))
      \<and> i2 \<notin> set (processedIds (pollTicks rt (p1 # ps) st))
      \<and> noRollover rt (ps @ [p2]) (rollover rt p1 st)
    \<longrightarrow>
      lookup (history (pollTicks rt (p1 # ps) st)) (lowerCase rt (trim raw)) =
        lookup (history (rollover rt p1 st)) (lowerCase rt (trim raw))
        @ read3 p1 # occurrences rt (lowerCase rt (trim raw))
                       (processedIds (fst (pollTick rt p1 st))) ps
      \<and> snd (pollTick rt p2 (pollTicks rt (p1 # ps) st)) =
          Some (buildReply rt (trim raw)
                  (lookup (history (pollTicks rt (p1 # ps) st)) (lowerCase rt (trim raw))))
      \<and> lookup (history (fst (pollTick rt p2 (pollTicks rt (p1 # ps) st))))
          (lowerCase rt (trim raw)) =
          lookup (history (pollTicks rt (p1 # ps) st)) (lowerCase rt (trim raw)) @ [read3 p2])
   \<and> (qualifying braw \<and> observes q1 j1 braw \<and> observes q2 j2 braw \<and> j1 \<noteq> [] \<and> j2 \<noteq> []
      \<and> inputReady q2
      \<and> j1 \<notin> set (processedIds bst)
      \<and> j2 \<notin> set (processedIds (pollTicks_bot rt (q1 # qs) bst))
      \<and> nothingPruned rt (qs @ [q2]) (fst (pollTick_bot rt q1 bst))
    \<longrightarrow>
      lookup (history (pollTicks_bot rt (q1 # qs) bst)) (lowerCase rt (trim braw)) =
        lookup (evict (read3 q1 - DAY_MS) (history bst)) (lowerCase rt (trim braw))
        @ msgDateOf rt q1 (last (rows q1))
          # occurrences_bot rt (lowerCase rt (trim braw))
              (processedIds (fst (pollTick_bot rt q1 bst))) qs
      \<and> snd (pollTick_bot rt q2 (pollTicks_bot rt (q1 # qs) bst)) =
          Some (buildReply_bot rt (trim braw)
                  (lookup (history (pollTicks_bot rt (q1 # qs) bst)) (lowerCase rt (trim braw))))
      \<and> lookup (history (fst (pollTick_bot rt q2 (pollTicks_bot rt (q1 # qs) bst))))
          (lowerCase rt (trim braw)) =
          lookup (history (pollTicks_bot rt (q1 # qs) bst)) (lowerCase rt (trim braw))
          @ [msgDateOf rt q2 (last (rows q2))])"
proof (intro conjI impI)
  assume a: "qualifying raw \<and> observes p1 i1 raw \<and> observes p2 i2 raw \<and> i1 \<noteq> [] \<and> i2 \<noteq> []
      \<and> inputReady p2
      \<and> i1 \<notin> set (processedIds (rollover rt p1 st))
      \<and> i2 \<notin> set (processedIds (pollTicks rt (p1 # ps) st))
      \<and> noRollover rt (ps @ [p2]) (rollover rt p1 st)"
  then have q: "qualifying raw" and o1: "observes p1 i1 raw" and o2: "observes p2 i2 raw"
    and n1: "i1 \<noteq> []" and n2: "i2 \<noteq> []" and ready: "inputReady p2"
    and f1: "i1 \<notin> set (processedIds (rollover rt p1 st))"
    and f2: "i2 \<notin> set (processedIds (pollTicks rt (p1 # ps) st))"
    and keep: "noRollover rt (ps @ [p2]) (rollover rt p1 st)"
    by blast+
  note r = observations_run [OF q q refl o1 o2 n1 n2 f1 f2 keep ready]
  from r show "lookup (history (pollTicks rt (p1 # ps) st)) (lowerCase rt (trim raw)) =
        lookup (history (rollover rt p1 st)) (lowerCase rt (trim raw))
        @ read3 p1 # occurrences rt (lowerCase rt (trim raw))
                       (processedIds (fst (pollTick rt p1 st))) ps"
    by (rule conjunct1)
  from r show "snd (pollTick rt p2 (pollTicks rt (p1 # ps) st)) =
          Some (buildReply rt (trim raw)
                  (lookup (history (pollTicks rt (p1 # ps) st)) (lowerCase rt (trim raw))))"
    by blast
  from r show "lookup (history (fst (pollTick rt p2 (pollTicks rt (p1 # ps) st))))
          (lowerCase rt (trim raw)) =
          lookup (history (pollTicks rt (p1 # ps) st)) (lowerCase rt (trim raw)) @ [read3 p2]"
    by blast
next
  assume a: "qualifying braw \<and> observes q1 j1 braw \<and> observes q2 j2 braw \<and> j1 \<noteq> [] \<and> j2 \<noteq> []
      \<and> inputReady q2
      \<and> j1 \<notin> set (processedIds bst)
      \<and> j2 \<notin> set (processedIds (pollTicks_bot rt (q1 # qs) bst))
      \<and> nothingPruned rt (qs @ [q2]) (fst (pollTick_bot rt q1 bst))"
  then have q: "qualifying braw" and o1: "observes q1 j1 braw" and o2: "observes q2 j2 braw"
    and n1: "j1 \<noteq> []" and n2: "j2 \<noteq> []" and ready: "inputReady q2"
    and f1: "j1 \<notin> set (processedIds bst)"
    and f2: "j2 \<notin> set (processedIds (pollTicks_bot rt (q1 # qs) bst))"
    and keep: "nothingPruned rt (qs @ [q2]) (fst (pollTick_bot rt q1 bst))"
    by blast+
  note r = observations_run_bot [OF q q refl o1 o2 n1 n2 f1 f2 keep ready]
  from r show "lookup (history (pollTicks_bot rt (q1 # qs) bst)) (lowerCase rt (trim braw)) =
        lookup (evict (read3 q1 - DAY_MS) (history bst)) (lowerCase rt (trim braw))
        @ msgDateOf rt q1 (last (rows q1))
          # occurrences_bot rt (lowerCase rt (trim braw))
              (processedIds (fst (pollTick_bot rt q1 bst))) qs"
    by (rule conjunct1)
  from r show "snd (pollTick_bot rt q2 (pollTicks_bot rt (q1 # qs) bst)) =
          Some (buildReply_bot rt (trim braw)
                  (lookup (history (pollTicks_bot rt (q1 # qs) bst)) (lowerCase rt (trim braw))))"
    by blast
  from r show "lookup (history (fst (pollTick_bot rt q2 (pollTicks_bot rt (q1 # qs) bst))))
          (lowerCase rt (trim braw)) =
          lookup (history (pollTicks_bot rt (q1 # qs) bst)) (lowerCase rt (trim braw))
          @ [msgDateOf rt q2 (last (rows q2))]"
    by blast
qed

text \<open>"hi" at 08:00, "ok" at 08:30 and found again four seconds later, "HI" at 09:00
  and "hi" at 09:30: the reply to the last one lists 08:00 and 09:00.\<close>

theorem second_observation_replies_witness:
  "snd (pollTick israelWinter (pollAt 1704871800000 [69, 52] [104, 105])
          (pollTicks israelWinter
             [pollAt 1704866400000 [69, 49] [104, 105],
              pollAt 1704868200000 [69, 50] [111, 107],
              pollAt 1704868204000 [69, 50] [111, 107],
              pollAt 1704870000000 [69, 51] [72, 73]]
             (freshMidnight 1704837600000)))
     = Some (replyHead @ [104, 105] @ replyMid
             @ [48, 56, 58, 48, 48] @ [44, 32] @ [48, 57, 58, 48, 48])
   \<and> snd (pollTick_bot israelWinter (pollAt 1704871800000 [69, 52] [104, 105])
          (pollTicks_bot israelWinter
             [pollAt 1704866400000 [69, 49] [104, 105],
              pollAt 1704868200000 [69, 50] [111, 107],
              pollAt 1704868204000 [69, 50] [111, 107],
              pollAt 1704870000000 [69, 51] [72, 73]]
             freshRolling))
     = Some (botHead @ [104, 105] @ botMid
             @ [48, 57, 58, 48, 48] @ [32, 1493, 1489] @ [48, 56, 58, 48, 48]
             @ [32, 40, 73, 76, 84, 41])"
proof -
  let ?rt = israelWinter
  let ?p1 = "pollAt 1704866400000 [69, 49] [104, 105]"
  let ?pa = "pollAt 1704868200000 [69, 50] [111, 107]"
  let ?pb = "pollAt 1704868204000 [69, 50] [111, 107]"
  let ?pc = "pollAt 1704870000000 [69, 51] [72, 73]"
  let ?p2 = "pollAt 1704871800000 [69, 52] [104, 105]"
  let ?ps = "[?pa, ?pb, ?pc]"
  let ?st = "freshMidnight 1704837600000"
  let ?k = "lowerCase ?rt (trim [104, 105])"
  have a1: "qualifying [104, 105]" by (simp add: text_eval)
  have a2: "observes ?p1 [69, 49] [104, 105]" by (simp add: fixture_eval)
  have a3: "observes ?p2 [69, 52] [104, 105]" by (simp add: fixture_eval)
  have a4: "[69, 49] \<noteq> ([] :: jsstring)" by simp
  have a5: "[69, 52] \<noteq> ([] :: jsstring)" by simp
  have a6: "inputReady ?p2" by (simp add: fixture_eval)
  have r0: "rollover ?rt ?p1 ?st = ?st" by (simp add: fixture_eval step_eval)
  have a7: "[69, 49] \<notin> set (processedIds (rollover ?rt ?p1 ?st))"
    by (simp add: r0) (simp add: fixture_eval)
  have n: "noRollover ?rt (?p1 # ?ps @ [?p2]) ?st"
    by (simp add: run_eval fixture_eval midnight_10jan midnight_10jan_0930)
  then have n1: "noRollover ?rt (?p1 # ?ps) ?st" and a9: "noRollover ?rt (?ps @ [?p2]) (rollover ?rt ?p1 ?st)"
    by (simp_all add: r0 noRollover_def)
  have a8: "[69, 52] \<notin> set (processedIds (pollTicks ?rt (?p1 # ?ps) ?st))"
    by (subst pollTicks_ids [OF n1]) (simp add: run_eval fixture_eval)
  have ids1: "processedIds (fst (pollTick ?rt ?p1 ?st)) = [[69, 49]]"
    by (simp add: fixture_eval step_eval text_eval)
  have occ: "occurrences ?rt ?k [[69, 49]] ?ps = [1704870000000]"
    by (simp add: run_eval fixture_eval text_eval)
  have l0: "lookup (history (rollover ?rt ?p1 ?st)) ?k = []"
    by (simp add: r0) (simp add: fixture_eval lookup_def)
  have v1: "buildReply ?rt (trim [104, 105]) [1704866400000, 1704870000000]
            = replyHead @ [104, 105] @ replyMid
              @ [48, 56, 58, 48, 48] @ [44, 32] @ [48, 57, 58, 48, 48]"
    by (simp add: text_eval buildReply_def clock_0800 clock_0900)
  have b7: "[69, 49] \<notin> set (processedIds freshRolling)" by (simp add: fixture_eval)
  define s1 where "s1 = fst (pollTick_bot ?rt ?p1 freshRolling)"
  have s1: "history s1 = [([104, 105], [1704866400000])]" "processedIds s1 = [[69, 49]]"
    unfolding s1_def by (simp_all add: fixture_eval bot_eval text_eval)
  define s2 where "s2 = fst (pollTick_bot ?rt ?pa s1)"
  have s2: "history s2 = [([104, 105], [1704866400000]), ([111, 107], [1704868200000])]"
    "processedIds s2 = [[69, 49], [69, 50]]"
    unfolding s2_def by (simp_all add: fixture_eval bot_eval text_eval s1)
  define s3 where "s3 = fst (pollTick_bot ?rt ?pb s2)"
  have s3: "history s3 = [([104, 105], [1704866400000]), ([111, 107], [1704868200000])]"
    "processedIds s3 = [[69, 49], [69, 50]]"
    unfolding s3_def by (simp_all add: fixture_eval bot_eval text_eval s2)
  define s4 where "s4 = fst (pollTick_bot ?rt ?pc s3)"
  have s4: "history s4 = [([104, 105], [1704866400000, 1704870000000]),
                          ([111, 107], [1704868200000])]"
    "processedIds s4 = [[69, 49], [69, 50], [69, 51]]"
    unfolding s4_def by (simp_all add: fixture_eval bot_eval text_eval s3)
  have run: "pollTicks_bot ?rt (?p1 # ?ps) freshRolling = s4"
    by (simp add: s1_def s2_def s3_def s4_def)
  have b8: "[69, 52] \<notin> set (processedIds (pollTicks_bot ?rt (?p1 # ?ps) freshRolling))"
    by (subst run) (simp add: s4)
  have b9: "nothingPruned ?rt (?ps @ [?p2]) (fst (pollTick_bot ?rt ?p1 freshRolling))"
    unfolding s1_def [symmetric]
    by (simp add: s2_def [symmetric] s3_def [symmetric] s4_def [symmetric] s1 s2 s3 s4)
       (simp add: pollAt_def evict_def pruneEntry_def DAY_MS_def MAX_IDS_def)
  have v2: "buildReply_bot ?rt (trim [104, 105]) [1704866400000, 1704870000000]
            = botHead @ [104, 105] @ botMid
              @ [48, 57, 58, 48, 48] @ [32, 1493, 1489] @ [48, 56, 58, 48, 48]
              @ [32, 40, 73, 76, 84, 41]"
    by (simp add: text_eval buildReply_bot_def clock_0800 clock_0900)
  have kk: "?k = [104, 105]" by (simp add: text_eval)
  have lb: "lookup (history s4) [104, 105] = [1704866400000, 1704870000000]"
    by (simp add: s4 lookup_def)
  note t = second_observation_replies [of "[104, 105]" ?p1 "[69, 49]" ?p2 "[69, 52]" ?rt ?st ?ps
      "[104, 105]" ?p1 "[69, 49]" ?p2 "[69, 52]" freshRolling ?ps]
  have h1: "qualifying [104, 105] \<and> observes ?p1 [69, 49] [104, 105]
      \<and> observes ?p2 [69, 52] [104, 105] \<and> [69, 49] \<noteq> ([] :: jsstring) \<and> [69, 52] \<noteq> ([] :: jsstring)
      \<and> inputReady ?p2
      \<and> [69, 49] \<notin> set (processedIds (rollover ?rt ?p1 ?st))
      \<and> [69, 52] \<notin> set (processedIds (pollTicks ?rt (?p1 # ?ps) ?st))
      \<and> noRollover ?rt (?ps @ [?p2]) (rollover ?rt ?p1 ?st)"
    by (intro conjI a1 a2 a3 a4 a5 a6 a7 a8 a9)
  have h2: "qualifying [104, 105] \<and> observes ?p1 [69, 49] [104, 105]
      \<and> observes ?p2 [69, 52] [104, 105] \<and> [69, 49] \<noteq> ([] :: jsstring) \<and> [69, 52] \<noteq> ([] :: jsstring)
      \<and> inputReady ?p2
      \<and> [69, 49] \<notin> set (processedIds freshRolling)
      \<and> [69, 52] \<notin> set (processedIds (pollTicks_bot ?rt (?p1 # ?ps) freshRolling))
      \<and> nothingPruned ?rt (?ps @ [?p2]) (fst (pollTick_bot ?rt ?p1 freshRolling))"
    by (intro conjI a1 a2 a3 a4 a5 a6 b7 b8 b9)
  from t [THEN conjunct1, THEN mp, OF h1]
  have c1: "snd (pollTick ?rt ?p2 (pollTicks ?rt (?p1 # ?ps) ?st)) =
          Some (buildReply ?rt (trim [104, 105]) [1704866400000, 1704870000000])"
    by (simp only: l0 ids1 occ append_Nil) (simp add: pollAt_def)
  from t [THEN conjunct2, THEN mp, OF h2]
  have c2: "snd (pollTick_bot ?rt ?p2 (pollTicks_bot ?rt (?p1 # ?ps) freshRolling)) =
          Some (buildReply_bot ?rt (trim [104, 105]) [1704866400000, 1704870000000])"
    by (simp only: run kk lb) 
  show ?thesis using c1 c2 by (simp only: v1 v2)
qed

section \<open>Letter case and white space\<close>











section \<open>C5: which texts share a key\<close>




section \<open>C3: texts that are not tracked\<close>

text \<open>
  part_000 rejects every text that is not qualifying (\<open>pollTick_reject\<close>): the table,
  the file and the reply are those of the state after the daily check.

  C3 fails on src/bot.js for a text that is empty after trimming: \<^verbatim>\<open>''.split(/\s+/)\<close>
  is \<^verbatim>\<open>['']\<close>, of length 1, so the guard \<^verbatim>\<open>words.length === 0\<close> never fires. Two
  messages of two spaces, at 08:00 and at 09:30: src/bot.js stores the key \<^verbatim>\<open>''\<close> and
  answers the second one; part_000 stores nothing and stays silent.
\<close>

theorem empty_text_tracked:
  "wordCount [32, 32] = 0
   \<and> history (fst (pollTick_bot israelWinter (pollAt 1704866400000 [69, 49] [32, 32]) freshRolling))
       = [([], [1704866400000])]
   \<and> snd (pollTick_bot israelWinter (pollAt 1704871800000 [69, 50] [32, 32])
            (fst (pollTick_bot israelWinter (pollAt 1704866400000 [69, 49] [32, 32]) freshRolling)))
       = Some (botHead @ botMid @ [48, 56, 58, 48, 48] @ [32, 40, 73, 76, 84, 41])
   \<and> history (fst (pollTick israelWinter (pollAt 1704866400000 [69, 49] [32, 32])
                      (freshMidnight 1704837600000))) = []
   \<and> snd (pollTick israelWinter (pollAt 1704871800000 [69, 50] [32, 32])
            (fst (pollTick israelWinter (pollAt 1704866400000 [69, 49] [32, 32])
                    (freshMidnight 1704837600000)))) = None"
  by (simp add: fixture_eval step_eval bot_eval text_eval buildReply_bot_def clock_0800)

section \<open>C7: a message delivered twice\<close>

lemma pollTick_marks:
  assumes "rows p \<noteq> []" and "dataId (last (rows p)) = Some i" and "i \<noteq> []"
  shows "i \<in> set (processedIds (fst (pollTick rt p st)))"
  using assms by (auto simp: pollTick_def Let_def split: option.splits)

text \<open>part_000: a message seen again before the next day rollover changes nothing and
  is not answered, whatever its text.\<close>

lemma redelivery_ignored:
  assumes "rows p1 \<noteq> []" and "dataId (last (rows p1)) = Some i" and "i \<noteq> []"
    and "dataId (last (rows p2)) = Some i"
    and "\<not> lastPruneMidnight (fst (pollTick rt p1 st)) < getIsraelMidnight rt (read1 p2)"
  shows "pollTick rt p2 (fst (pollTick rt p1 st)) = (fst (pollTick rt p1 st), None)"
proof -
  have "rollover rt p2 (fst (pollTick rt p1 st)) = fst (pollTick rt p1 st)"
    using assms(5) by (rule rollover_same)
  then show ?thesis
    using pollTick_seen [OF assms(4), of rt "fst (pollTick rt p1 st)"]
      pollTick_marks [OF assms(1) assms(2) assms(3), of rt st]
    by simp
qed

lemma fullRolling_ids:
  "length (processedIds fullRolling) = 2000 \<and> [69, 49] \<notin> set (processedIds fullRolling)"
  by (auto simp: fullRolling_def)

text \<open>
  C7 fails on src/bot.js. With 2000 identifiers already in the set, the message E1
  ("ok") is the 2001st: \<^verbatim>\<open>prune\<close> deletes every identifier, E1 among them. The next
  run of the callback, four seconds later, finds the same newest row, takes E1 for a
  new message, appends a second time and replies.
\<close>

theorem redelivery_after_wipe:
  "length (processedIds fullRolling) = 2000
   \<and> processedIds (fst (pollTick_bot israelWinter (pollAt 1704866400000 [69, 49] [111, 107]) fullRolling))
       = []
   \<and> history (fst (pollTick_bot israelWinter (pollAt 1704866404000 [69, 49] [111, 107])
        (fst (pollTick_bot israelWinter (pollAt 1704866400000 [69, 49] [111, 107]) fullRolling))))
       = [([111, 107], [1704866400000, 1704866404000])]
   \<and> snd (pollTick_bot israelWinter (pollAt 1704866404000 [69, 49] [111, 107])
        (fst (pollTick_bot israelWinter (pollAt 1704866400000 [69, 49] [111, 107]) fullRolling)))
       = Some (botHead @ [111, 107] @ botMid @ [48, 56, 58, 48, 48] @ [32, 40, 73, 76, 84, 41])"
proof -
  let ?p1 = "pollAt 1704866400000 [69, 49] [111, 107]"
  let ?p2 = "pollAt 1704866404000 [69, 49] [111, 107]"
  have s1: "history (fst (pollTick_bot israelWinter ?p1 fullRolling)) = [([111, 107], [1704866400000])]
    \<and> processedIds (fst (pollTick_bot israelWinter ?p1 fullRolling)) = []"
    using fullRolling_ids
    by (simp add: pollTick_bot_def Let_def msgDateOf_def lookup_def fixture_eval text_eval
        history_prune processedIds_prune MAX_IDS_def)
       (simp add: fullRolling_def evict_def)
  have q: "qualifying [111, 107]" by (simp add: text_eval)
  have f: "[69, 49] \<notin> set (processedIds (fst (pollTick_bot israelWinter ?p1 fullRolling)))"
    using s1 by simp
  have r: "rows ?p2 \<noteq> []" "dataId (last (rows ?p2)) = Some [69, 49]"
    "innerText (last (rows ?p2)) = Some [111, 107]" "[69, 49] \<noteq> ([] :: jsstring)"
    by (simp_all add: fixture_eval)
  have s2: "history (fst (pollTick_bot israelWinter ?p2 (fst (pollTick_bot israelWinter ?p1 fullRolling))))
       = [([111, 107], [1704866400000, 1704866404000])]
     \<and> snd (pollTick_bot israelWinter ?p2 (fst (pollTick_bot israelWinter ?p1 fullRolling)))
       = Some (botHead @ [111, 107] @ botMid @ [48, 56, 58, 48, 48] @ [32, 40, 73, 76, 84, 41])"
    using pollTick_bot_accept [OF r(1) r(2) r(4) f r(3) q, of israelWinter] s1
    by (simp add: fixture_eval text_eval msgDateOf_def lookup_def evict_def pruneEntry_def
        DAY_MS_def buildReply_bot_def clock_0800)
  show ?thesis using s1 s2 fullRolling_ids by simp
qed

section \<open>C8: the day rollover\<close>

lemma midnight_9jan_2300: "getIsraelMidnight israelWinter 1704834000000 = 1704751200000"
  by code_simp

text \<open>
  C8, as stated, fails on src/bot.js, which records no boundary. A message of 23:00 on
  9 January is in the table and its identifier in the set; at 08:00 on 10 January,
  after midnight has passed, the callback neither evicts that occurrence nor clears
  the set.
\<close>

theorem bot_no_rollover_counterexample:
  "getIsraelMidnight israelWinter 1704834000000 < getIsraelMidnight israelWinter 1704866400000
   \<and> processedIds (fst (pollTick_bot israelWinter (pollAt 1704866400000 [69, 50] [104, 105])
        \<lparr> history = [([104, 105], [1704834000000])], processedIds = [[69, 49]], stored = None,
          lastSeenId = Some [69, 49] \<rparr>)) = [[69, 49], [69, 50]]
   \<and> history (fst (pollTick_bot israelWinter (pollAt 1704866400000 [69, 50] [104, 105])
        \<lparr> history = [([104, 105], [1704834000000])], processedIds = [[69, 49]], stored = None,
          lastSeenId = Some [69, 49] \<rparr>)) = [([104, 105], [1704834000000, 1704866400000])]"
  by (simp add: midnight_9jan_2300 midnight_10jan fixture_eval bot_eval text_eval)

text \<open>
  C8, amended. In part_000 (and backup/bot.js, whose check is the same), whenever the
  boundary \<^verbatim>\<open>getIsraelMidnight\<close> computes at the start of a run of the callback is
  strictly after \<^verbatim>\<open>lastPruneMidnight\<close>, the callback runs \<^verbatim>\<open>midnightPrune\<close>: the table
  is evicted with the boundary computed there, \<^verbatim>\<open>processedIds\<close> is cleared, and the
  boundary is recorded; when the callback returns, the only identifier the set can
  hold is that of the message of this run. src/bot.js keeps no boundary and has no
  rollover step: a run of its callback that finds no new message changes nothing,
  whatever the instant, and a run that finds a new qualifying message evicts with the
  cutoff of 24 hours before its \<^verbatim>\<open>Date.now()\<close>.
\<close>

theorem rollover_evicts_and_clears:
  "(lastPruneMidnight st < getIsraelMidnight rt (read1 p) \<longrightarrow>
        rollover rt p st = midnightPrune rt (read2 p) st
      \<and> history (rollover rt p st) = evict (getIsraelMidnight rt (read2 p)) (history st)
      \<and> processedIds (rollover rt p st) = []
      \<and> lastPruneMidnight (rollover rt p st) = getIsraelMidnight rt (read2 p)
      \<and> lastPruneMidnight (fst (pollTick rt p st)) = getIsraelMidnight rt (read2 p)
      \<and> (\<forall>i \<in> set (processedIds (fst (pollTick rt p st))).
            rows p \<noteq> [] \<and> dataId (last (rows p)) = Some i))
   \<and> (newest q = None \<longrightarrow> pollTick_bot rt q bst = (bst, None))
   \<and> (newest q' = Some (j', txt) \<and> j' \<in> set (processedIds bst') \<longrightarrow>
        pollTick_bot rt q' bst' = (bst', None))
   \<and> (observes r j raw \<and> j \<noteq> [] \<and> j \<notin> set (processedIds rst) \<and> qualifying raw \<longrightarrow>
        history (fst (pollTick_bot rt r rst)) =
          AList.update (lowerCase rt (trim raw))
            (lookup (evict (read3 r - DAY_MS) (history rst)) (lowerCase rt (trim raw))
             @ [msgDateOf rt r (last (rows r))])
            (evict (read3 r - DAY_MS) (history rst)))"
proof (intro conjI impI)
  assume a: "lastPruneMidnight st < getIsraelMidnight rt (read1 p)"
  show r: "rollover rt p st = midnightPrune rt (read2 p) st"
    using a by (simp add: rollover_def Let_def)
  show "history (rollover rt p st) = evict (getIsraelMidnight rt (read2 p)) (history st)"
    by (simp add: r history_midnightPrune)
  show ids: "processedIds (rollover rt p st) = []"
    by (simp add: r midnightPrune_def Let_def)
  show b: "lastPruneMidnight (rollover rt p st) = getIsraelMidnight rt (read2 p)"
    by (simp add: r midnightPrune_def Let_def)
  show "lastPruneMidnight (fst (pollTick rt p st)) = getIsraelMidnight rt (read2 p)"
    by (simp add: pollTick_keeps_boundary b)
  show "\<forall>i \<in> set (processedIds (fst (pollTick rt p st))).
          rows p \<noteq> [] \<and> dataId (last (rows p)) = Some i"
    using ids by (auto simp: pollTick_def Let_def split: option.splits if_splits)
next
  assume "newest q = None"
  then show "pollTick_bot rt q bst = (bst, None)" by (simp add: pollTick_bot_idle)
next
  assume "newest q' = Some (j', txt) \<and> j' \<in> set (processedIds bst')"
  then show "pollTick_bot rt q' bst' = (bst', None)"
    using pollTick_bot_idle [of q' j' bst' rt] by blast
next
  assume a: "observes r j raw \<and> j \<noteq> [] \<and> j \<notin> set (processedIds rst) \<and> qualifying raw"
  then have r: "rows r \<noteq> []" "dataId (last (rows r)) = Some j"
    "innerText (last (rows r)) = Some raw" by (simp_all add: observes_def)
  from a have n: "j \<noteq> []" and f: "j \<notin> set (processedIds rst)" and t: "qualifying raw"
    by blast+
  show "history (fst (pollTick_bot rt r rst)) =
          AList.update (lowerCase rt (trim raw))
            (lookup (evict (read3 r - DAY_MS) (history rst)) (lowerCase rt (trim raw))
             @ [msgDateOf rt r (last (rows r))])
            (evict (read3 r - DAY_MS) (history rst))"
    using pollTick_bot_accept [OF r(1) r(2) n f r(3) t, of rt] by (rule conjunct1)
qed

text \<open>
  A run of part_000 at 08:00 on 10 January that finds no message, the last eviction
  being that of 9 January: yesterday's occurrences and the identifiers are gone. A run
  of src/bot.js at the same instant that finds no message, or the message it has
  processed, leaves yesterday's occurrence and the identifier where they are; "ok" at
  00:00 on 11 January evicts the occurrence of 23:00 on 9 January, 25 hours old.
\<close>

theorem rollover_evicts_and_clears_witness:
  "rollover israelWinter (idlePoll 1704866400000)
     \<lparr> history = [([104, 105], [1704834000000, 1704841200000]), ([111, 107], [1704834000000])],
       processedIds = [[69, 49]], stored = None, lastPruneMidnight = 1704751200000 \<rparr>
   = \<lparr> history = [([104, 105], [1704841200000])], processedIds = [],
       stored = persist [([104, 105], [1704841200000])] None, lastPruneMidnight = 1704837600000 \<rparr>
   \<and> pollTick_bot israelWinter (idlePoll 1704866400000)
        \<lparr> history = [([104, 105], [1704834000000])], processedIds = [[69, 49]], stored = None,
          lastSeenId = Some [69, 49] \<rparr>
      = (\<lparr> history = [([104, 105], [1704834000000])], processedIds = [[69, 49]], stored = None,
            lastSeenId = Some [69, 49] \<rparr>, None)
   \<and> pollTick_bot israelWinter (pollAt 1704866400000 [69, 49] [104, 105])
        \<lparr> history = [([104, 105], [1704834000000])], processedIds = [[69, 49]], stored = None,
          lastSeenId = Some [69, 49] \<rparr>
      = (\<lparr> history = [([104, 105], [1704834000000])], processedIds = [[69, 49]], stored = None,
            lastSeenId = Some [69, 49] \<rparr>, None)
   \<and> history (fst (pollTick_bot israelWinter (pollAt 1704924000000 [69, 50] [111, 107])
        \<lparr> history = [([104, 105], [1704834000000])], processedIds = [[69, 49]], stored = None,
          lastSeenId = Some [69, 49] \<rparr>))
      = [([111, 107], [1704924000000])]"
proof -
  let ?st = "\<lparr> history = [([104, 105], [1704834000000, 1704841200000]),
                           ([111 :: nat, 107], [1704834000000 :: int])],
               processedIds = [[69 :: nat, 49]], stored = None, lastPruneMidnight = 1704751200000 \<rparr>"
  let ?bst = "\<lparr> history = [([104 :: nat, 105], [1704834000000 :: int])],
                processedIds = [[69 :: nat, 49]], stored = None, lastSeenId = Some [69 :: nat, 49] \<rparr>"
  let ?q = "pollAt 1704866400000 [69, 49] [104, 105]"
  let ?r = "pollAt 1704924000000 [69, 50] [111, 107]"
  note t = rollover_evicts_and_clears
  have h: "lastPruneMidnight ?st < getIsraelMidnight israelWinter (read1 (idlePoll 1704866400000))"
    by (simp add: idlePoll_def midnight_10jan)
  have "rollover israelWinter (idlePoll 1704866400000) ?st
          = midnightPrune israelWinter (read2 (idlePoll 1704866400000)) ?st"
    using t [THEN conjunct1, THEN mp, OF h] by (rule conjunct1)
  then have c1: "rollover israelWinter (idlePoll 1704866400000) ?st
     = \<lparr> history = [([104, 105], [1704841200000])], processedIds = [],
         stored = persist [([104, 105], [1704841200000])] None, lastPruneMidnight = 1704837600000 \<rparr>"
    by (simp add: idlePoll_def midnight_10jan midnightPrune_def Let_def evict_def pruneEntry_def)
  have h2: "newest (idlePoll 1704866400000) = None" by (simp add: newest_def idlePoll_def)
  have c2: "pollTick_bot israelWinter (idlePoll 1704866400000) ?bst = (?bst, None)"
    by (rule t [THEN conjunct2, THEN conjunct1, THEN mp, OF h2])
  have h3: "newest ?q = Some ([69, 49], Some [104, 105]) \<and> [69, 49] \<in> set (processedIds ?bst)"
    by (simp add: newest_def pollAt_def)
  have c3: "pollTick_bot israelWinter ?q ?bst = (?bst, None)"
    by (rule t [THEN conjunct2, THEN conjunct2, THEN conjunct1, THEN mp, OF h3])
  have h4: "observes ?r [69, 50] [111, 107] \<and> [69, 50] \<noteq> ([] :: jsstring)
            \<and> [69, 50] \<notin> set (processedIds ?bst) \<and> qualifying [111, 107]"
    by (simp add: fixture_eval text_eval)
  have "history (fst (pollTick_bot israelWinter ?r ?bst)) =
          AList.update (lowerCase israelWinter (trim [111, 107]))
            (lookup (evict (read3 ?r - DAY_MS) (history ?bst)) (lowerCase israelWinter (trim [111, 107]))
             @ [msgDateOf israelWinter ?r (last (rows ?r))])
            (evict (read3 ?r - DAY_MS) (history ?bst))"
    by (rule t [THEN conjunct2, THEN conjunct2, THEN conjunct2, THEN mp, OF h4])
  then have c4: "history (fst (pollTick_bot israelWinter ?r ?bst)) = [([111, 107], [1704924000000])]"
    by (simp add: fixture_eval text_eval msgDateOf_def evict_def pruneEntry_def DAY_MS_def lookup_def)
  show ?thesis by (intro conjI c1 c2 c3 c4)
qed

section \<open>C4: the day boundary when the process runs in another zone\<close>

text \<open>
  C4 fails on \<^verbatim>\<open>getIsraelMidnight\<close> when the Node process does not run in
  \<^verbatim>\<open>Asia/Jerusalem\<close>: the date is read in that zone, but \<^verbatim>\<open>new Date(year, month, day,
  0, 0, 0, 0)\<close> is midnight of that date in the process's zone. At 08:00 of 10 January
  in Jerusalem, a process in New York gets the instant that is 07:00 of 10 January in
  Jerusalem; a process in Jerusalem gets 00:00.
\<close>

theorem getIsraelMidnight_in_new_york:
  "getIsraelMidnight newYorkWinter 1704866400000 = 1704862800000
   \<and> dateFields (zoneLocal newYorkWinter 1704862800000) = (2024, 0, 10)
   \<and> hourOf (zoneLocal newYorkWinter 1704862800000) = 7
   \<and> getIsraelMidnight israelWinter 1704866400000 = 1704837600000
   \<and> dateFields (zoneLocal israelWinter 1704837600000) = (2024, 0, 10)
   \<and> hourOf (zoneLocal israelWinter 1704837600000) = 0"
  by code_simp

section \<open>The calendar: year, month and day give the day number back\<close>

lemma yearAndDay_bounds:
  fixes d :: int
  defines "n \<equiv> d + 134774"
  defines "doe \<equiv> n mod 146097"
  defines "c \<equiv> min 3 (doe div 36524)"
  defines "doc \<equiv> doe - 36524 * c"
  defines "q \<equiv> doc div 1461"
  defines "doq \<equiv> doc mod 1461"
  defines "r \<equiv> min 3 (doq div 365)"
  shows "0 \<le> c \<and> c \<le> 3 \<and> 0 \<le> q \<and> q \<le> 24 \<and> 0 \<le> r \<and> r \<le> 3
       \<and> 0 \<le> doq - 365 * r \<and> doq - 365 * r \<le> 365
       \<and> (doq - 365 * r = 365 \<longrightarrow> r = 3 \<and> (q < 24 \<or> c = 3))
       \<and> doe = 36524 * c + 1461 * q + doq"
proof -
  have doe: "0 \<le> doe" "doe < 146097" by (simp_all add: doe_def)
  have c: "0 \<le> c" "c \<le> 3" using doe by (simp_all add: c_def)
  have doc: "0 \<le> doc" "doc \<le> 36524" "c < 3 \<longrightarrow> doc < 36524"
    using doe unfolding doc_def c_def by (auto simp: min_def) 
  have q: "0 \<le> q" "q \<le> 24" using doc unfolding q_def by auto
  have doq: "0 \<le> doq" "doq < 1461" by (simp_all add: doq_def)
  have split: "doc = 1461 * q + doq" by (simp add: q_def doq_def)
  have r: "0 \<le> r" "r \<le> 3" using doq by (simp_all add: r_def)
  have dwy: "0 \<le> doq - 365 * r" "doq - 365 * r \<le> 365" "doq - 365 * r = 365 \<longrightarrow> r = 3"
    using doq unfolding r_def by (auto simp: min_def)
  have last: "doq - 365 * r = 365 \<longrightarrow> q < 24 \<or> c = 3"
    using doc split dwy r q c by auto
  show ?thesis using c q r dwy last split by (simp add: doc_def)
qed

lemma dayFromYear_cycles:
  fixes era c q r :: int
  assumes "0 \<le> c" "c \<le> 3" "0 \<le> q" "q \<le> 24" "0 \<le> r" "r \<le> 3"
  shows "dayFromYear (1601 + 400 * era + 100 * c + 4 * q + r)
         = 146097 * era + 36524 * c + 1461 * q + 365 * r - 134774"
proof -
  let ?y = "1601 + 400 * era + 100 * c + 4 * q + r"
  have a: "(?y - 1601) div 400 = era"
    by (rule int_div_pos_eq [where r = "100 * c + 4 * q + r"]) (use assms in simp_all)
  have b: "(?y - 1901) div 100 = 4 * era + c - 3"
    by (rule int_div_pos_eq [where r = "4 * q + r"]) (use assms in simp_all)
  have d: "(?y - 1969) div 4 = 100 * era + 25 * c + q - 92"
    by (rule int_div_pos_eq [where r = r]) (use assms in simp_all)
  show ?thesis unfolding dayFromYear_def a b d by simp
qed

lemma isLeap_cycles:
  fixes era c q r :: int
  assumes "0 \<le> c" "c \<le> 3" "0 \<le> q" "q \<le> 24" "r = 3" "q < 24 \<or> c = 3"
  shows "isLeap (1601 + 400 * era + 100 * c + 4 * q + r)"
proof -
  let ?y = "1601 + 400 * era + 100 * c + 4 * q + r"
  have m4: "?y mod 4 = 0"
    by (rule int_mod_pos_eq [where q = "401 + 100 * era + 25 * c + q"]) (use assms in simp_all)
  show ?thesis
  proof (cases "q < 24")
    case True
    have "?y mod 100 = 4 + 4 * q"
      by (rule int_mod_pos_eq [where q = "16 + 4 * era + c"]) (use assms True in simp_all)
    then have "?y mod 100 \<noteq> 0" using assms by simp
    then show ?thesis using m4 by (simp only: isLeap_def) simp
  next
    case False
    with assms have cq: "c = 3" "q = 24" by auto
    have "?y mod 400 = 0"
      by (rule int_mod_pos_eq [where q = "5 + era"]) (use assms cq in simp_all)
    then show ?thesis using m4 by (simp only: isLeap_def) simp
  qed
qed

lemma yearAndDay_correct:
  assumes "yearAndDay d = (y, dwy)"
  shows "dayFromYear y + dwy = d \<and> 0 \<le> dwy \<and> dwy \<le> 364 + (if isLeap y then 1 else 0)"
proof -
  define n where "n = d + 134774"
  define doe where "doe = n mod 146097"
  define c where "c = min 3 (doe div 36524)"
  define doc where "doc = doe - 36524 * c"
  define q where "q = doc div 1461"
  define doq where "doq = doc mod 1461"
  define r where "r = min 3 (doq div 365)"
  note defs = n_def doe_def c_def doc_def q_def doq_def r_def
  have B: "0 \<le> c \<and> c \<le> 3 \<and> 0 \<le> q \<and> q \<le> 24 \<and> 0 \<le> r \<and> r \<le> 3
       \<and> 0 \<le> doq - 365 * r \<and> doq - 365 * r \<le> 365
       \<and> (doq - 365 * r = 365 \<longrightarrow> r = 3 \<and> (q < 24 \<or> c = 3))
       \<and> doe = 36524 * c + 1461 * q + doq"
    unfolding defs by (rule yearAndDay_bounds)
  have y: "y = 1601 + 400 * (n div 146097) + 100 * c + 4 * q + r" and dwy: "dwy = doq - 365 * r"
    using assms unfolding yearAndDay_def defs by (simp_all add: Let_def)
  have n: "n = 146097 * (n div 146097) + doe" by (simp add: doe_def)
  have "dayFromYear y = 146097 * (n div 146097) + 36524 * c + 1461 * q + 365 * r - 134774"
    unfolding y using B by (intro dayFromYear_cycles) simp_all
  then have sum: "dayFromYear y + dwy = d" using B n dwy by (simp add: n_def)
  have leap: "dwy = 365 \<longrightarrow> isLeap y"
    unfolding y dwy using B by (auto intro!: isLeap_cycles)
  show ?thesis using sum leap B dwy by auto
qed

lemma monthFromDay_range: "0 \<le> monthFromDay leap dwy \<and> monthFromDay leap dwy \<le> 11"
  by (simp add: monthFromDay_def Let_def)

lemma monthStart_monthFromDay:
  assumes "0 \<le> dwy" "dwy \<le> 364 + (if leap then 1 else 0)"
  shows "monthStart leap (monthFromDay leap dwy) \<le> dwy
       \<and> dwy - monthStart leap (monthFromDay leap dwy) \<le> 30"
  using assms by (cases leap) (simp_all add: monthFromDay_def monthStart_def Let_def)

lemma dateFields_correct:
  assumes "dateFields tv = (y, m, dd)"
  shows "0 \<le> m \<and> m \<le> 11 \<and> 1 \<le> dd \<and> dd \<le> 31 \<and> makeDay y m dd = tv div msPerDay"
proof -
  obtain y' dwy where yd: "yearAndDay (tv div msPerDay) = (y', dwy)" by (cases "yearAndDay (tv div msPerDay)")
  from assms have y: "y = y'" and m: "m = monthFromDay (isLeap y') dwy"
    and dd: "dd = dwy - monthStart (isLeap y') m + 1"
    by (auto simp: dateFields_def yd Let_def)
  note c = yearAndDay_correct [OF yd]
  have r: "0 \<le> m \<and> m \<le> 11" unfolding m by (rule monthFromDay_range)
  have s: "monthStart (isLeap y') m \<le> dwy \<and> dwy - monthStart (isLeap y') m \<le> 30"
    unfolding m using c by (intro monthStart_monthFromDay) simp_all
  have "m div 12 = 0" using r by simp
  then have "makeDay y m dd = dayFromYear y' + dwy"
    by (simp add: makeDay_def y dd)
  then show ?thesis using r s c dd by simp
qed

lemma time_of_day:
  "makeTime (hourOf t) (minuteOf t) (secondOf t) (msOf t) = t mod msPerDay"
proof -
  have d1: "(3600000 :: int) dvd 86400000" by (rule dvdI [where k = 24]) simp
  have d2: "(60000 :: int) dvd 3600000" by (rule dvdI [where k = 60]) simp
  have d3: "(1000 :: int) dvd 60000" by (rule dvdI [where k = 60]) simp
  have a: "t mod 86400000 = (t mod 86400000 div 3600000) * 3600000 + t mod 3600000"
    using div_mult_mod_eq [of "t mod 86400000" 3600000] mod_mod_cancel [OF d1, of t] by simp
  have b: "t mod 3600000 = (t mod 3600000 div 60000) * 60000 + t mod 60000"
    using div_mult_mod_eq [of "t mod 3600000" 60000] mod_mod_cancel [OF d2, of t] by simp
  have c: "t mod 60000 = (t mod 60000 div 1000) * 1000 + t mod 1000"
    using div_mult_mod_eq [of "t mod 60000" 1000] mod_mod_cancel [OF d3, of t] by simp
  show ?thesis
    unfolding makeTime_def hourOf_def minuteOf_def secondOf_def msOf_def msPerDay_def
    using a b c by linarith
qed

lemma secondOf_range: "0 \<le> secondOf tv \<and> secondOf tv < 60"
  by (simp add: secondOf_def div_less_iff_less_mult pos_imp_zdiv_nonneg_iff)

lemma msOf_range: "0 \<le> msOf tv \<and> msOf tv < 1000"
  by (simp add: msOf_def)

lemma makeDate_split: "makeDate (t div msPerDay) (t mod msPerDay) = t"
  by (simp add: makeDate_def)

lemma estimate_upper:
  fixes y A B C r1 r2 r3 :: int
  assumes "y - 1969 = A * 4 + r1" "0 \<le> r1" "r1 < 4"
    and "y - 1901 = B * 100 + r2" "0 \<le> r2" "r2 < 100"
    and "y - 1601 = C * 400 + r3" "0 \<le> r3" "r3 < 400"
  shows "400 * (365 * (y - 1970) + A - B + C) \<le> 146097 * y - 287810890 + 400"
proof -
  have "400 * A = 100 * (y - 1969) - 100 * r1" using assms(1) by simp
  moreover have "400 * B = 4 * (y - 1901) - 4 * r2" using assms(4) by simp
  moreover have "400 * C = (y - 1601) - r3" using assms(7) by simp
  ultimately show ?thesis using assms(2,3,5,6,8,9) by (simp add: algebra_simps)
qed

lemma estimate_lower:
  fixes y A B C r1 r2 r3 :: int
  assumes "y - 1969 = A * 4 + r1" "0 \<le> r1" "r1 < 4"
    and "y - 1901 = B * 100 + r2" "0 \<le> r2" "r2 < 100"
    and "y - 1601 = C * 400 + r3" "0 \<le> r3" "r3 < 400"
  shows "146097 * y - 287810890 - 1600 \<le> 400 * (365 * (y - 1970) + A - B + C)"
proof -
  have "400 * A = 100 * (y - 1969) - 100 * r1" using assms(1) by simp
  moreover have "400 * B = 4 * (y - 1901) - 4 * r2" using assms(4) by simp
  moreover have "400 * C = (y - 1601) - r3" using assms(7) by simp
  ultimately show ?thesis using assms(2,3,5,6,8,9) by (simp add: algebra_simps)
qed

lemma dayFromYear_upper: "400 * dayFromYear y \<le> 146097 * y - 287810890 + 400"
  unfolding dayFromYear_def
  by (rule estimate_upper [where ?r1.0 = "(y - 1969) mod 4" and ?r2.0 = "(y - 1901) mod 100"
        and ?r3.0 = "(y - 1601) mod 400"]) simp_all

lemma dayFromYear_lower: "146097 * y - 287810890 - 1600 \<le> 400 * dayFromYear y"
  unfolding dayFromYear_def
  by (rule estimate_lower [where ?r1.0 = "(y - 1969) mod 4" and ?r2.0 = "(y - 1901) mod 100"
        and ?r3.0 = "(y - 1601) mod 400"]) simp_all

lemma dayFromYear_low: "y \<le> - 1000000 \<Longrightarrow> dayFromYear y < - 100000366"
  using dayFromYear_upper [of y] by linarith

lemma dayFromYear_high: "1000000 \<le> y \<Longrightarrow> 100000000 < dayFromYear y"
  using dayFromYear_lower [of y] by linarith

lemma year_range:
  assumes "- maxTime \<le> t" "t \<le> maxTime" "dateFields t = (y, m, dd)"
  shows "- 1000000 < y \<and> y < 1000000"
proof -
  obtain y' dwy where yd: "yearAndDay (t div msPerDay) = (y', dwy)"
    by (cases "yearAndDay (t div msPerDay)")
  from assms(3) have y: "y = y'" by (auto simp: dateFields_def yd Let_def)
  note c = yearAndDay_correct [OF yd]
  have "- 100000000 \<le> t div msPerDay" "t div msPerDay \<le> 100000000"
    using assms(1,2) unfolding maxTime_def msPerDay_def by linarith+
  then have "- 100000366 \<le> dayFromYear y" "dayFromYear y \<le> 100000000"
    using c y by (auto split: if_splits)
  then show ?thesis using dayFromYear_low [of y] dayFromYear_high [of y] by linarith
qed

section \<open>The day boundary when the process runs in the zone\<close>

text \<open>
  When the instant that the process's zone gives for the local midnight has that
  midnight as its local time in \<^verbatim>\<open>Asia/Jerusalem\<close> (the process runs in that zone, and
  the midnight is not skipped by a clock change), \<^verbatim>\<open>getIsraelMidnight\<close> returns the
  instant of 00:00:00.000 of the zone's current calendar date. The years 0 to 99, which
  the \<^verbatim>\<open>Date\<close> constructor reads as 1900 to 1999, are left out.
\<close>

lemma getIsraelMidnight_start_of_day:
  assumes "dateFields (zoneLocal rt now) = (y, m, d)" and "y < 0 \<or> 99 < y"
  shows "getIsraelMidnight rt now = procUTC rt (zoneLocal rt now div msPerDay * msPerDay)"
  using assms dateFields_correct [OF assms(1)]
  by (auto simp: getIsraelMidnight_def localeDateParts_def newLocalDate_def makeDate_def
      makeTime_def)

lemma getIsraelMidnight_same_zone:
  assumes "dateFields (zoneLocal rt now) = (y, m, d)" and "y < 0 \<or> 99 < y"
    and "zoneLocal rt (procUTC rt (zoneLocal rt now div msPerDay * msPerDay))
         = zoneLocal rt now div msPerDay * msPerDay"
  shows "zoneLocal rt (getIsraelMidnight rt now) = zoneLocal rt now div msPerDay * msPerDay
       \<and> dateFields (zoneLocal rt (getIsraelMidnight rt now)) = dateFields (zoneLocal rt now)
       \<and> zoneLocal rt (getIsraelMidnight rt now) mod msPerDay = 0"
proof -
  have e: "zoneLocal rt (getIsraelMidnight rt now) = zoneLocal rt now div msPerDay * msPerDay"
    using assms by (simp add: getIsraelMidnight_start_of_day)
  have "(zoneLocal rt now div msPerDay * msPerDay) div msPerDay = zoneLocal rt now div msPerDay"
    by (simp add: msPerDay_def)
  then show ?thesis by (simp add: e dateFields_def)
qed

section \<open>Dates written and read back\<close>

lemma length_pad [simp]: "length (pad k n) = k"
  by (induction k arbitrary: n) simp_all

lemma digitVal_digit: "digitVal (48 + n mod 10) = Some (n mod 10)"
  by (simp add: digitVal_def)

lemma parseDigits_snoc:
  "parseDigits (ds @ [c]) =
     (case parseDigits ds of None \<Rightarrow> None
      | Some a \<Rightarrow> (case digitVal c of None \<Rightarrow> None | Some d \<Rightarrow> Some (10 * a + d)))"
  by (simp add: parseDigits_def)

lemma parseDigits_pad: "n < 10 ^ k \<Longrightarrow> parseDigits (pad k n) = Some n"
proof (induction k arbitrary: n)
  case 0
  then show ?case by (simp add: parseDigits_def)
next
  case (Suc k)
  then have "n div 10 < 10 ^ k" by (simp add: less_mult_imp_div_less mult.commute)
  then have "parseDigits (pad k (n div 10)) = Some (n div 10)" by (rule Suc.IH)
  then show ?case by (simp add: parseDigits_snoc digitVal_digit)
qed

lemma hd_pad: "0 < k \<Longrightarrow> 48 \<le> hd (pad k n) \<and> hd (pad k n) \<le> 57"
proof (induction k arbitrary: n)
  case 0
  then show ?case by simp
next
  case (Suc k)
  show ?case
  proof (cases "k = 0")
    case True
    then show ?thesis by simp
  next
    case False
    then have "pad k (n div 10) \<noteq> []" by (metis length_pad length_0_conv)
    then show ?thesis using Suc.IH [of "n div 10"] False by (simp add: hd_append)
  qed
qed

lemma parseDate_plain:
  assumes "Y < 10000" "1 \<le> M" "M \<le> 12" "1 \<le> D" "D \<le> 31" "H < 24" "Mi < 60" "S < 60"
    "F < 1000"
  shows "parseDate (pad 4 Y @ [45] @ pad 2 M @ [45] @ pad 2 D @ [84] @ pad 2 H @ [58]
                    @ pad 2 Mi @ [58] @ pad 2 S @ [46] @ pad 3 F @ [90])
         = (let tv = makeDate (makeDay (int Y) (int M - 1) (int D))
                              (makeTime (int H) (int Mi) (int S) (int F))
            in if tv < - maxTime \<or> maxTime < tv then None else Some tv)"
proof -
  let ?s = "pad 4 Y @ [45] @ pad 2 M @ [45] @ pad 2 D @ [84] @ pad 2 H @ [58]
            @ pad 2 Mi @ [58] @ pad 2 S @ [46] @ pad 3 F @ [90]"
  have ne: "pad 4 Y \<noteq> []" by (metis length_pad length_0_conv zero_neq_numeral)
  have hd: "hd ?s \<noteq> 43 \<and> hd ?s \<noteq> 45" using hd_pad [of 4 Y] ne by (simp add: hd_append)
  have p: "parseDigits (pad 4 Y) = Some Y" "parseDigits (pad 2 M) = Some M"
    "parseDigits (pad 2 D) = Some D" "parseDigits (pad 2 H) = Some H"
    "parseDigits (pad 2 Mi) = Some Mi" "parseDigits (pad 2 S) = Some S"
    "parseDigits (pad 3 F) = Some F"
    using assms by (simp_all add: parseDigits_pad)
  show ?thesis
    unfolding parseDate_def using hd ne assms
    by (simp add: Let_def p nth_append)
qed

lemma parseDate_signed:
  assumes "c = 43 \<or> c = 45" "c = 45 \<longrightarrow> Y \<noteq> 0"
    "Y < 1000000" "1 \<le> M" "M \<le> 12" "1 \<le> D" "D \<le> 31" "H < 24" "Mi < 60" "S < 60"
    "F < 1000"
  shows "parseDate ([c] @ pad 6 Y @ [45] @ pad 2 M @ [45] @ pad 2 D @ [84] @ pad 2 H @ [58]
                    @ pad 2 Mi @ [58] @ pad 2 S @ [46] @ pad 3 F @ [90])
         = (let tv = makeDate (makeDay (if c = 45 then - int Y else int Y) (int M - 1) (int D))
                              (makeTime (int H) (int Mi) (int S) (int F))
            in if tv < - maxTime \<or> maxTime < tv then None else Some tv)"
proof -
  have p: "parseDigits (pad 6 Y) = Some Y" "parseDigits (pad 2 M) = Some M"
    "parseDigits (pad 2 D) = Some D" "parseDigits (pad 2 H) = Some H"
    "parseDigits (pad 2 Mi) = Some Mi" "parseDigits (pad 2 S) = Some S"
    "parseDigits (pad 3 F) = Some F"
    using assms by (simp_all add: parseDigits_pad)
  show ?thesis
    unfolding parseDate_def using assms
    by (auto simp: Let_def p nth_append)
qed

lemma iso_roundtrip:
  assumes "- maxTime \<le> t" "t \<le> maxTime"
  shows "\<exists>s. toISOString t = Some s \<and> parseDate s = Some t"
proof -
  obtain y m dd where f: "dateFields t = (y, m, dd)" by (cases "dateFields t") auto
  note df = dateFields_correct [OF f]
  note yr = year_range [OF assms f]
  note h = hourOf_range [of t] and mi = minuteOf_range [of t] and se = secondOf_range [of t]
    and ms = msOf_range [of t]
  have tv: "makeDate (makeDay y m dd) (makeTime (hourOf t) (minuteOf t) (secondOf t) (msOf t)) = t"
    using df by (simp add: time_of_day makeDate_split)
  have n: "int (nat (m + 1)) - 1 = m" "int (nat dd) = dd" "int (nat (hourOf t)) = hourOf t"
    "int (nat (minuteOf t)) = minuteOf t" "int (nat (secondOf t)) = secondOf t"
    "int (nat (msOf t)) = msOf t"
    using df h mi se ms by auto
  have r: "1 \<le> nat (m + 1)" "nat (m + 1) \<le> 12" "1 \<le> nat dd" "nat dd \<le> 31"
    "nat (hourOf t) < 24" "nat (minuteOf t) < 60" "nat (secondOf t) < 60" "nat (msOf t) < 1000"
    using df h mi se ms by linarith+
  show ?thesis
  proof (cases "0 \<le> y \<and> y \<le> 9999")
    case True
    then have y: "nat y < 10000" "int (nat y) = y" by linarith+
    have "toISOString t = Some (pad 4 (nat y) @ [45] @ pad 2 (nat (m + 1)) @ [45] @ pad 2 (nat dd)
        @ [84] @ pad 2 (nat (hourOf t)) @ [58] @ pad 2 (nat (minuteOf t)) @ [58]
        @ pad 2 (nat (secondOf t)) @ [46] @ pad 3 (nat (msOf t)) @ [90])"
      using assms True by (simp add: toISOString_def f)
    moreover have "parseDate (pad 4 (nat y) @ [45] @ pad 2 (nat (m + 1)) @ [45] @ pad 2 (nat dd)
        @ [84] @ pad 2 (nat (hourOf t)) @ [58] @ pad 2 (nat (minuteOf t)) @ [58]
        @ pad 2 (nat (secondOf t)) @ [46] @ pad 3 (nat (msOf t)) @ [90]) = Some t"
      using assms by (simp only: parseDate_plain [OF y(1) r] n y(2) tv Let_def) simp
    ultimately show ?thesis by blast
  next
    case False
    define c :: nat where "c = (if y < 0 then 45 else 43)"
    have c: "c = 43 \<or> c = 45" "c = 45 \<longrightarrow> nat \<bar>y\<bar> \<noteq> 0" "nat \<bar>y\<bar> < 1000000"
      "(if c = 45 then - int (nat \<bar>y\<bar>) else int (nat \<bar>y\<bar>)) = y"
      using False yr by (auto simp: c_def)
    have "toISOString t = Some ([c] @ pad 6 (nat \<bar>y\<bar>) @ [45] @ pad 2 (nat (m + 1)) @ [45]
        @ pad 2 (nat dd) @ [84] @ pad 2 (nat (hourOf t)) @ [58] @ pad 2 (nat (minuteOf t)) @ [58]
        @ pad 2 (nat (secondOf t)) @ [46] @ pad 3 (nat (msOf t)) @ [90])"
      using assms False by (simp add: toISOString_def f c_def)
    moreover have "parseDate ([c] @ pad 6 (nat \<bar>y\<bar>) @ [45] @ pad 2 (nat (m + 1)) @ [45]
        @ pad 2 (nat dd) @ [84] @ pad 2 (nat (hourOf t)) @ [58] @ pad 2 (nat (minuteOf t)) @ [58]
        @ pad 2 (nat (secondOf t)) @ [46] @ pad 3 (nat (msOf t)) @ [90]) = Some t"
      using assms by (simp only: parseDate_signed [OF c(1,2,3) r] n c(4) tv Let_def) simp
    ultimately show ?thesis by blast
  qed
qed

lemma toISOString_ends_with_Z: "toISOString t = Some s \<Longrightarrow> last s = 90"
  by (auto simp: toISOString_def Let_def split: if_splits prod.splits)

section \<open>C10: the table written and loaded\<close>

lemma update_fresh: "k \<notin> fst ` set acc \<Longrightarrow> AList.update k v acc = acc @ [(k, v)]"
  by (induction acc) auto

lemma fold_update_distinct:
  "distinct (map fst (acc @ map (\<lambda>e. (fst e, f (snd e))) es)) \<Longrightarrow>
   fold (\<lambda>e ob. AList.update (fst e) (f (snd e)) ob) es acc
     = acc @ map (\<lambda>e. (fst e, f (snd e))) es"
proof (induction es arbitrary: acc)
  case Nil
  then show ?case by simp
next
  case (Cons e es)
  from Cons.prems have fresh: "fst e \<notin> fst ` set acc" by auto
  have d: "distinct (map fst ((acc @ [(fst e, f (snd e))]) @ map (\<lambda>e. (fst e, f (snd e))) es))"
    using Cons.prems by simp
  show ?case
    using Cons.IH [OF d] by (simp add: update_fresh [OF fresh])
qed

lemma mset_objectOrder: "mset (objectOrder es) = mset es"
  by (simp add: objectOrder_def)

lemma set_objectOrder: "set (objectOrder es) = set es"
  using mset_objectOrder [of es] by (rule mset_eq_setD)

lemma distinct_objectOrder:
  "distinct (map fst es) \<Longrightarrow> distinct (map fst (objectOrder es))"
proof -
  have "mset (map fst (objectOrder es)) = mset (map fst es)"
    by (simp add: mset_objectOrder)
  then show "distinct (map fst es) \<Longrightarrow> distinct (map fst (objectOrder es))"
    by (metis mset_eq_imp_distinct_iff)
qed

lemma fromEntries_distinct:
  assumes "distinct (map fst es)"
  shows "fromEntries es = objectOrder es"
proof -
  have "fold (\<lambda>e ob. AList.update (fst e) (id (snd e)) ob) es [] = [] @ map (\<lambda>e. (fst e, id (snd e))) es"
    by (rule fold_update_distinct) (use assms in \<open>simp add: comp_def\<close>)
  then show ?thesis by (simp add: fromEntries_def)
qed

lemma those_map:
  "(\<And>x. x \<in> set xs \<Longrightarrow> f x = Some (g x)) \<Longrightarrow> those (map f xs) = Some (map g xs)"
  by (induction xs) simp_all

lemma map_of_values:
  "map_of (map (\<lambda>e. (fst e, f (snd e))) h) k = map_option f (map_of h k)"
  by (induction h) auto

lemma isoOf:
  assumes "- maxTime \<le> t" "t \<le> maxTime"
  shows "toISOString t = Some (isoOf t)" "parseDate (isoOf t) = Some t"
  using iso_roundtrip [OF assms] by (auto simp: isoOf_def)

text \<open>
  C10. For every table whose keys are distinct and whose dates are valid,
  \<^verbatim>\<open>persist\<close> writes a file, and the load of that file gives a table with the same
  keys, each with the same instants in the same order, every one a valid date: the
  ISO string of an instant has millisecond precision and is read back to that instant.
  The string is the UTC form (no zone of the runtime enters \<open>toISOString\<close>, and
  \<open>toISOString_ends_with_Z\<close>). The loaded \<^verbatim>\<open>Map\<close> may list its keys in another
  order, array-index keys first.
\<close>

theorem persist_load_roundtrip:
  assumes "distinct (map fst h)"
    and "\<forall>e \<in> set h. \<forall>t \<in> set (snd e). - maxTime \<le> t \<and> t \<le> maxTime"
  shows "\<exists>ob. persist h old = Some ob
            \<and> distinct (map fst (load (Some ob)))
            \<and> (\<forall>k. map_of (load (Some ob)) k = map_option (map Some) (map_of h k))"
proof -
  let ?es = "map (\<lambda>e. (fst e, map isoOf (snd e))) h"
  have inner: "those (map toISOString (snd e)) = Some (map isoOf (snd e))" if "e \<in> set h" for e
    by (rule those_map) (use assms(2) that isoOf(1) in blast)
  have "those (map (\<lambda>e. map_option (Pair (fst e)) (those (map toISOString (snd e)))) h) = Some ?es"
    by (rule those_map) (simp add: inner)
  then have p: "persist h old = Some (fromEntries ?es)" by (simp add: persist_def)
  have des: "distinct (map fst ?es)" using assms(1) by (simp add: comp_def)
  have fe: "fromEntries ?es = objectOrder ?es" using des by (rule fromEntries_distinct)
  let ?ob = "objectOrder ?es"
  have dob: "distinct (map fst ?ob)" using des by (rule distinct_objectOrder)
  have l: "load (Some ?ob) = map (\<lambda>e. (fst e, map parseDate (snd e))) ?ob"
    using fold_update_distinct [of "[]" "map parseDate" ?ob] dob
    by (simp add: load_def comp_def)
  have dl: "distinct (map fst (load (Some ?ob)))" using dob by (simp add: l comp_def)
  have reread: "map parseDate (map isoOf ts) = map Some ts"
    if "\<forall>t \<in> set ts. - maxTime \<le> t \<and> t \<le> maxTime" for ts
    using that by (induction ts) (simp_all add: isoOf(2))
  have "map_of (load (Some ?ob)) k = map_option (map Some) (map_of h k)" for k
  proof -
    have "map_of ?ob = map_of ?es"
      using dob des set_objectOrder [of ?es] by (simp add: map_of_inject_set)
    then have "map_of (load (Some ?ob)) k = map_option (map parseDate) (map_of ?es k)"
      by (simp add: l map_of_values)
    also have "\<dots> = map_option (map parseDate) (map_option (map isoOf) (map_of h k))"
      by (simp add: map_of_values)
    also have "\<dots> = map_option (map Some) (map_of h k)"
    proof (cases "map_of h k")
      case None
      then show ?thesis by simp
    next
      case (Some ts)
      then have "(k, ts) \<in> set h" by (rule map_of_SomeD)
      then have "\<forall>t \<in> set ts. - maxTime \<le> t \<and> t \<le> maxTime" using assms(2) by force
      then have "map parseDate (map isoOf ts) = map Some ts" by (rule reread)
      then show ?thesis using Some by (simp del: map_map)
    qed
    finally show ?thesis .
  qed
  then show ?thesis using p fe dl by auto
qed

lemma iso_0800:
  "toISOString 1704866400000
     = Some [50, 48, 50, 52, 45, 48, 49, 45, 49, 48, 84, 48, 54, 58, 48, 48, 58, 48, 48, 46, 48,
             48, 48, 90]"
  by code_simp

lemma iso_0930:
  "toISOString 1704871800000
     = Some [50, 48, 50, 52, 45, 48, 49, 45, 49, 48, 84, 48, 55, 58, 51, 48, 58, 48, 48, 46, 48,
             48, 48, 90]"
  by code_simp

text \<open>The file for "hi" (08:00 and 09:30) and "10" (08:00): the key "10" comes first.\<close>

lemma persist_example:
  "persist [([104, 105], [1704866400000, 1704871800000]), ([49, 48], [1704866400000])] None
     = Some [([49, 48], [[50, 48, 50, 52, 45, 48, 49, 45, 49, 48, 84, 48, 54, 58, 48, 48, 58, 48,
                          48, 46, 48, 48, 48, 90]]),
             ([104, 105], [[50, 48, 50, 52, 45, 48, 49, 45, 49, 48, 84, 48, 54, 58, 48, 48, 58,
                            48, 48, 46, 48, 48, 48, 90],
                           [50, 48, 50, 52, 45, 48, 49, 45, 49, 48, 84, 48, 55, 58, 51, 48, 58,
                            48, 48, 46, 48, 48, 48, 90]])]"
  by (simp add: persist_def fromEntries_def objectOrder_def indexKey_def arrayIndex_def
      parseDigits_def digitVal_def iso_0800 iso_0930)

theorem persist_load_roundtrip_witness:
  "\<exists>ob. persist [([104, 105], [1704866400000, 1704871800000]), ([49, 48], [1704866400000])] None
           = Some ob
     \<and> map_of (load (Some ob)) [104, 105] = Some [Some 1704866400000, Some 1704871800000]
     \<and> map_of (load (Some ob)) [49, 48] = Some [Some 1704866400000]
     \<and> map_of (load (Some ob)) [111, 107] = None"
proof -
  let ?h = "[([104 :: nat, 105], [1704866400000 :: int, 1704871800000]), ([49, 48], [1704866400000])]"
  have d: "distinct (map fst ?h)" by simp
  have v: "\<forall>e \<in> set ?h. \<forall>t \<in> set (snd e). - maxTime \<le> t \<and> t \<le> maxTime"
    by (simp add: maxTime_def)
  from persist_load_roundtrip [OF d v, of None] obtain ob where
    ob: "persist ?h None = Some ob"
      "\<forall>k. map_of (load (Some ob)) k = map_option (map Some) (map_of ?h k)"
    by blast
  show ?thesis
    by (rule exI [of _ ob]) (simp add: ob)
qed

end
